theory Spec2Isabelle
  imports Main
begin

section \<open>The operating system as the rotator sees it\<close>

text \<open>
  The rotating log writer (package \<open>rotation\<close>) talks to the file system through
  \<open>os.Stat\<close>, \<open>os.MkdirAll\<close>, \<open>os.Create\<close>, \<open>os.OpenFile\<close>, \<open>os.Remove\<close>,
  \<open>os.Rename\<close> and the \<open>Write\<close> and \<open>Close\<close> methods of \<open>*os.File\<close>. The world below
  is the part of the machine those calls read and change: the regular files by path,
  the paths whose parent directories have been made, the descriptors that are open, a
  script of faults that decides which of the coming calls fail with an I/O error, and
  the log of the calls made so far. Time is counted in calls made: \<open>begun\<close> holds,
  for each file, the time at which it was created or emptied, so that the age of the
  content of two files can be compared. No call reads it.

  A call fails with \<open>ErrNotExist\<close> exactly when the file it names is not there; every
  other failure comes from the fault script, which may make any call fail. No other
  program changes the files. The mutex of the Rotator serialises its methods, so each
  method is a function from the state before to the state after.
\<close>

type_synonym path = string
type_synonym bytes = string

datatype io_error = EACCES | EIO | ENOSPC

datatype os_error = ErrNotExist | ErrInvalid | ErrClosed | ErrIO io_error

definition IsNotExist :: "os_error \<Rightarrow> bool" where
  "IsNotExist e = (e = ErrNotExist)"

text \<open>\<open>errs.Wrap\<close> attaches a stack trace to the error it is given.\<close>

datatype error = Wrap os_error

text \<open>An \<open>*os.File\<close>: the descriptor and the name it was opened under.\<close>

datatype handle = Handle (fd: nat) (name: path)

datatype FileInfo = FileInfo (Size: int)

text \<open>
  \<open>MkdirAllDir p\<close> is the call \<open>os.MkdirAll(filepath.Dir(p), 0755)\<close>; \<open>OpenFile p\<close> is
  \<open>os.OpenFile(p, os.O_WRONLY|os.O_APPEND, 0666)\<close>.
\<close>

datatype syscall =
    Stat path
  | MkdirAllDir path
  | Create path
  | OpenFile path
  | Remove path
  | Rename path path
  | FWrite handle bytes
  | FClose handle

text \<open>
  \<open>Fault e k\<close> makes the next call fail with the I/O error \<open>e\<close>; when that call is a
  write, \<open>k\<close> bytes have reached the file by then.
\<close>

datatype fault = NoFault | Fault io_error nat

record world =
  files :: "path \<rightharpoonup> bytes"
  begun :: "path \<rightharpoonup> int"
  parents_made :: "path set"
  open_fds :: "nat set"
  next_fd :: nat
  faults :: "fault list"
  trace :: "syscall list"

text \<open>Every call is logged and takes the next entry of the fault script.\<close>

definition enter :: "syscall \<Rightarrow> world \<Rightarrow> fault \<times> world" where
  "enter c w =
     ((case faults w of [] \<Rightarrow> NoFault | f # _ \<Rightarrow> f),
      w\<lparr>faults := tl (faults w), trace := trace w @ [c]\<rparr>)"

definition os_Stat :: "path \<Rightarrow> world \<Rightarrow> (os_error + FileInfo) \<times> world" where
  "os_Stat p w =
     (case enter (Stat p) w of
        (Fault e k, w') \<Rightarrow> (Inl (ErrIO e), w')
      | (NoFault, w') \<Rightarrow>
          (case files w' p of
             None \<Rightarrow> (Inl ErrNotExist, w')
           | Some c \<Rightarrow> (Inr (FileInfo (int (length c))), w')))"

definition os_MkdirAllDir :: "path \<Rightarrow> world \<Rightarrow> os_error option \<times> world" where
  "os_MkdirAllDir p w =
     (case enter (MkdirAllDir p) w of
        (Fault e k, w') \<Rightarrow> (Some (ErrIO e), w')
      | (NoFault, w') \<Rightarrow> (None, w'\<lparr>parents_made := insert p (parents_made w')\<rparr>))"

text \<open>
  \<open>os.Create\<close> opens with \<open>O_RDWR|O_CREATE|O_TRUNC\<close>: the file is empty afterwards, and
  its content begins with this call.
\<close>

definition os_Create :: "path \<Rightarrow> world \<Rightarrow> (os_error + handle) \<times> world" where
  "os_Create p w =
     (case enter (Create p) w of
        (Fault e k, w') \<Rightarrow> (Inl (ErrIO e), w')
      | (NoFault, w') \<Rightarrow>
          (Inr (Handle (next_fd w') p),
           w'\<lparr>files := (files w')(p \<mapsto> []),
              begun := (begun w')(p \<mapsto> int (length (trace w'))),
              open_fds := insert (next_fd w') (open_fds w'),
              next_fd := Suc (next_fd w')\<rparr>))"

definition os_OpenFile :: "path \<Rightarrow> world \<Rightarrow> (os_error + handle) \<times> world" where
  "os_OpenFile p w =
     (case enter (OpenFile p) w of
        (Fault e k, w') \<Rightarrow> (Inl (ErrIO e), w')
      | (NoFault, w') \<Rightarrow>
          (case files w' p of
             None \<Rightarrow> (Inl ErrNotExist, w')
           | Some c \<Rightarrow>
               (Inr (Handle (next_fd w') p),
                w'\<lparr>open_fds := insert (next_fd w') (open_fds w'),
                   next_fd := Suc (next_fd w')\<rparr>)))"

definition os_Remove :: "path \<Rightarrow> world \<Rightarrow> os_error option \<times> world" where
  "os_Remove p w =
     (case enter (Remove p) w of
        (Fault e k, w') \<Rightarrow> (Some (ErrIO e), w')
      | (NoFault, w') \<Rightarrow>
          (case files w' p of
             None \<Rightarrow> (Some ErrNotExist, w')
           | Some c \<Rightarrow>
               (None, w'\<lparr>files := (files w')(p := None), begun := (begun w')(p := None)\<rparr>)))"

text \<open>
  \<open>os.Rename\<close> replaces the target when it exists; the file keeps its content and the
  time that content was begun.
\<close>

definition os_Rename :: "path \<Rightarrow> path \<Rightarrow> world \<Rightarrow> os_error option \<times> world" where
  "os_Rename old new w =
     (case enter (Rename old new) w of
        (Fault e k, w') \<Rightarrow> (Some (ErrIO e), w')
      | (NoFault, w') \<Rightarrow>
          (case files w' old of
             None \<Rightarrow> (Some ErrNotExist, w')
           | Some c \<Rightarrow>
               (None, w'\<lparr>files := ((files w')(old := None))(new \<mapsto> c),
                         begun := ((begun w')(old := None))(new := begun w' old)\<rparr>)))"

text \<open>
  Bytes written through a handle go to the end of the file of that name. (The Rotator
  closes its handle before it removes or renames the file, so the handle it holds and
  the file at its path are the same file.) A write that fails has put the first \<open>k\<close>
  bytes in the file; a handle that is closed takes none.
\<close>

definition append_to :: "path \<Rightarrow> bytes \<Rightarrow> (path \<rightharpoonup> bytes) \<Rightarrow> (path \<rightharpoonup> bytes)" where
  "append_to p b fs = (case fs p of None \<Rightarrow> fs | Some c \<Rightarrow> fs(p \<mapsto> c @ b))"

definition file_Write :: "handle \<Rightarrow> bytes \<Rightarrow> world \<Rightarrow> (nat \<times> os_error option) \<times> world" where
  "file_Write f b w =
     (case enter (FWrite f b) w of
        (flt, w') \<Rightarrow>
          if fd f \<notin> open_fds w' then ((0, Some ErrClosed), w')
          else (case flt of
                  Fault e k \<Rightarrow>
                    ((min k (length b), Some (ErrIO e)),
                     w'\<lparr>files := append_to (name f) (take k b) (files w')\<rparr>)
                | NoFault \<Rightarrow>
                    ((length b, None),
                     w'\<lparr>files := append_to (name f) b (files w')\<rparr>)))"

text \<open>The descriptor is given back whether or not the close reports an error.\<close>

definition file_Close :: "handle \<Rightarrow> world \<Rightarrow> os_error option \<times> world" where
  "file_Close f w =
     (case enter (FClose f) w of
        (flt, w') \<Rightarrow>
          if fd f \<notin> open_fds w' then (Some ErrClosed, w')
          else (case flt of
                  Fault e k \<Rightarrow> (Some (ErrIO e), w'\<lparr>open_fds := open_fds w' - {fd f}\<rparr>)
                | NoFault \<Rightarrow> (None, w'\<lparr>open_fds := open_fds w' - {fd f}\<rparr>)))"

section \<open>Integers and formatting\<close>

text \<open>
  Go's \<open>int64\<close>: a conversion or a sum that leaves the range wraps around at \<open>2^63\<close>.
  \<open>maxBackups\<close> and the loop counter are Go \<open>int\<close>s that only count down from
  \<open>maxBackups\<close> to 0, so they are plain integers here.
\<close>

definition int64 :: "int \<Rightarrow> int" where
  "int64 x = (x + 2 ^ 63) mod 2 ^ 64 - 2 ^ 63"

definition add64 :: "int \<Rightarrow> int \<Rightarrow> int" where
  "add64 a b = int64 (a + b)"

text \<open>The verb \<open>%d\<close> of \<open>fmt.Sprintf\<close>: decimal digits, a minus sign for a negative number.\<close>

definition digit :: "nat \<Rightarrow> char" where
  "digit d = ''0123456789'' ! d"

function itoa :: "nat \<Rightarrow> string" where
  "itoa n = (if n < 10 then [digit n] else itoa (n div 10) @ [digit (n mod 10)])"
  by pat_completeness auto
termination
  by (relation "measure (\<lambda>n. n)") auto

declare itoa.simps [simp del]

definition fmt_d :: "int \<Rightarrow> string" where
  "fmt_d i = (if i < 0 then CHR ''-'' # itoa (nat (- i)) else itoa (nat i))"

text \<open>\<open>fmt.Sprintf("%s-%d", p, i)\<close>, the name of backup \<open>i\<close> of \<open>p\<close>.\<close>

definition backup :: "path \<Rightarrow> int \<Rightarrow> path" where
  "backup p i = p @ ''-'' @ fmt_d i"

section \<open>The Rotator\<close>

record Rotator =
  path :: path
  maxSize :: int
  maxBackups :: int
  file_r :: "handle option"
  size_r :: int

subsection \<open>rotate\<close>

text \<open>Lines 94 to 100: close the open file and forget it, whatever the close says.\<close>

definition rotate_close :: "Rotator \<Rightarrow> world \<Rightarrow> error option \<times> Rotator \<times> world" where
  "rotate_close r w =
     (case file_r r of
        Some f \<Rightarrow>
          (case file_Close f w of
             (Some err, w') \<Rightarrow> (Some (Wrap err), r\<lparr>file_r := None\<rparr>, w')
           | (None, w') \<Rightarrow> (None, r\<lparr>file_r := None\<rparr>, w'))
      | None \<Rightarrow> (None, r, w))"

text \<open>Lines 109 to 119: the loop \<open>for i := r.maxBackups; i > 0; i--\<close>.\<close>

definition oldPath :: "path \<Rightarrow> int \<Rightarrow> path" where
  "oldPath p i = (if i \<noteq> 1 then backup p (i - 1) else p)"

function shift_backups :: "path \<Rightarrow> int \<Rightarrow> world \<Rightarrow> error option \<times> world" where
  "shift_backups p i w =
     (if i > 0 then
        (case os_Rename (oldPath p i) (backup p i) w of
           (Some err, w') \<Rightarrow>
             if \<not> IsNotExist err then (Some (Wrap err), w')
             else shift_backups p (i - 1) w'
         | (None, w') \<Rightarrow> shift_backups p (i - 1) w')
      else (None, w))"
  by pat_completeness auto
termination
  by (relation "measure (\<lambda>(p, i, w). nat i)") auto

declare shift_backups.simps [simp del]

text \<open>Lines 101 to 120: make room for the new file.\<close>

definition rotate_files :: "Rotator \<Rightarrow> world \<Rightarrow> error option \<times> world" where
  "rotate_files r w =
     (if maxBackups r < 1 then
        (case os_Remove (path r) w of
           (Some err, w') \<Rightarrow>
             if \<not> IsNotExist err then (Some (Wrap err), w') else (None, w')
         | (None, w') \<Rightarrow> (None, w'))
      else
        (case os_Remove (backup (path r) (maxBackups r)) w of
           (Some err, w') \<Rightarrow>
             if \<not> IsNotExist err then (Some (Wrap err), w')
             else shift_backups (path r) (maxBackups r) w'
         | (None, w') \<Rightarrow> shift_backups (path r) (maxBackups r) w'))"

text \<open>Lines 121 to 127: the fresh file.\<close>

definition rotate_create :: "Rotator \<Rightarrow> world \<Rightarrow> error option \<times> Rotator \<times> world" where
  "rotate_create r w =
     (case os_Create (path r) w of
        (Inl err, w') \<Rightarrow> (Some (Wrap err), r, w')
      | (Inr f, w') \<Rightarrow> (None, r\<lparr>file_r := Some f, size_r := 0\<rparr>, w'))"

definition rotate_r :: "Rotator \<Rightarrow> world \<Rightarrow> error option \<times> Rotator \<times> world" where
  "rotate_r r w =
     (case rotate_close r w of
        (Some e, r1, w1) \<Rightarrow> (Some e, r1, w1)
      | (None, r1, w1) \<Rightarrow>
          (case rotate_files r1 w1 of
             (Some e, w2) \<Rightarrow> (Some e, r1, w2)
           | (None, w2) \<Rightarrow> rotate_create r1 w2))"

subsection \<open>Write\<close>

text \<open>Lines 41 to 64: open the file when none is open.\<close>

definition Write_open :: "Rotator \<Rightarrow> world \<Rightarrow> error option \<times> Rotator \<times> world" where
  "Write_open r w =
     (case file_r r of
        Some f \<Rightarrow> (None, r, w)
      | None \<Rightarrow>
          (case os_Stat (path r) w of
             (Inl err, w1) \<Rightarrow>
               if IsNotExist err then
                 (case os_MkdirAllDir (path r) w1 of
                    (Some err', w2) \<Rightarrow> (Some (Wrap err'), r, w2)
                  | (None, w2) \<Rightarrow>
                      (case os_Create (path r) w2 of
                         (Inl ferr, w3) \<Rightarrow> (Some (Wrap ferr), r, w3)
                       | (Inr f, w3) \<Rightarrow> (None, r\<lparr>file_r := Some f, size_r := 0\<rparr>, w3)))
               else (Some (Wrap err), r, w1)
           | (Inr fi, w1) \<Rightarrow>
               (case os_OpenFile (path r) w1 of
                  (Inl err, w2) \<Rightarrow> (Some (Wrap err), r, w2)
                | (Inr f, w2) \<Rightarrow> (None, r\<lparr>file_r := Some f, size_r := Size fi\<rparr>, w2))))"

text \<open>Lines 65 to 70: rotate when the write would pass the threshold.\<close>

definition Write_rotate :: "Rotator \<Rightarrow> bytes \<Rightarrow> world \<Rightarrow> error option \<times> Rotator \<times> world" where
  "Write_rotate r b w =
     (let writeSize = int64 (int (length b)) in
      if add64 (size_r r) writeSize > maxSize r then rotate_r r w
      else (None, r, w))"

text \<open>
  Lines 71 to 76: the write itself. A nil \<open>*os.File\<close> answers \<open>Write\<close> with
  \<open>os.ErrInvalid\<close> and no bytes.
\<close>

definition Write_file :: "Rotator \<Rightarrow> bytes \<Rightarrow> world \<Rightarrow> (nat \<times> error option) \<times> Rotator \<times> world" where
  "Write_file r b w =
     (case (case file_r r of
              None \<Rightarrow> ((0, Some ErrInvalid), w)
            | Some f \<Rightarrow> file_Write f b w) of
        ((n, err), w') \<Rightarrow>
          ((n, map_option Wrap err),
           r\<lparr>size_r := add64 (size_r r) (int64 (int n))\<rparr>, w'))"

text \<open>Lines 65 to 76, what a write does once a file is open.\<close>

definition Write_rest :: "Rotator \<Rightarrow> bytes \<Rightarrow> world \<Rightarrow> (nat \<times> error option) \<times> Rotator \<times> world" where
  "Write_rest r b w =
     (case Write_rotate r b w of
        (Some e, r2, w2) \<Rightarrow> ((0, Some e), r2, w2)
      | (None, r2, w2) \<Rightarrow> Write_file r2 b w2)"

definition Write :: "Rotator \<Rightarrow> bytes \<Rightarrow> world \<Rightarrow> (nat \<times> error option) \<times> Rotator \<times> world" where
  "Write r b w =
     (case Write_open r w of
        (Some e, r1, w1) \<Rightarrow> ((0, Some e), r1, w1)
      | (None, r1, w1) \<Rightarrow> Write_rest r1 b w1)"

subsection \<open>Close\<close>

definition Close :: "Rotator \<Rightarrow> world \<Rightarrow> error option \<times> Rotator \<times> world" where
  "Close r w =
     (case file_r r of
        Some f \<Rightarrow>
          (case file_Close f w of
             (Some err, w') \<Rightarrow> (Some (Wrap err), r\<lparr>file_r := None\<rparr>, w')
           | (None, w') \<Rightarrow> (None, r\<lparr>file_r := None\<rparr>, w'))
      | None \<Rightarrow> (None, r, w))"

section \<open>Calls, runs and the numbering of backups\<close>

text \<open>The calls made between two states of the world.\<close>

definition calls :: "world \<Rightarrow> world \<Rightarrow> syscall list" where
  "calls w w' = drop (length (trace w)) (trace w')"

text \<open>The renames of a rotation that keeps \<open>n\<close> backups, in the order they are made.\<close>

definition renames :: "path \<Rightarrow> int \<Rightarrow> syscall list" where
  "renames p n = map (\<lambda>i. Rename (oldPath p i) (backup p i)) (rev [1..n])"

fun is_Rename :: "syscall \<Rightarrow> bool" where
  "is_Rename (Rename a b) = True"
| "is_Rename c = False"

fun is_Remove :: "syscall \<Rightarrow> bool" where
  "is_Remove (Remove a) = True"
| "is_Remove c = False"

fun is_FClose :: "syscall \<Rightarrow> bool" where
  "is_FClose (FClose f) = True"
| "is_FClose c = False"

fun is_FWrite :: "syscall \<Rightarrow> bool" where
  "is_FWrite (FWrite f b) = True"
| "is_FWrite c = False"

fun is_Create :: "syscall \<Rightarrow> bool" where
  "is_Create (Create a) = True"
| "is_Create c = False"

text \<open>
  \<open>chain_ok\<close>: every backup has a number from 1 to \<open>n\<close> and the slot before it, the live
  file for backup 1, is filled. \<open>numbered\<close> is the same without the condition on the
  live file. A state is \<open>settled\<close> when its chain is in order and an open handle has
  its file on disk.
\<close>

definition chain_ok :: "path \<Rightarrow> int \<Rightarrow> (path \<rightharpoonup> bytes) \<Rightarrow> bool" where
  "chain_ok p n fs = (\<forall>i. 1 \<le> i \<and> fs (backup p i) \<noteq> None \<longrightarrow> i \<le> n \<and> fs (oldPath p i) \<noteq> None)"

definition numbered :: "path \<Rightarrow> int \<Rightarrow> (path \<rightharpoonup> bytes) \<Rightarrow> bool" where
  "numbered p n fs =
     (\<forall>i. 1 \<le> i \<and> fs (backup p i) \<noteq> None \<longrightarrow> i \<le> n \<and> (1 < i \<longrightarrow> fs (backup p (i - 1)) \<noteq> None))"

definition settled :: "Rotator \<times> world \<Rightarrow> bool" where
  "settled s = (case s of (r, w) \<Rightarrow>
     chain_ok (path r) (maxBackups r) (files w) \<and>
     (file_r r \<noteq> None \<longrightarrow> files w (path r) \<noteq> None))"

text \<open>
  The age of the files. Slot 0 of a path is the live file, slot \<open>i\<close> is backup \<open>i\<close>.
  A world is \<open>tracked\<close> when the times cover exactly the files on disk. It is
  \<open>aged\<close> when moreover no time lies in the future, no backup has a number above \<open>n\<close>,
  and of two filled slots the one with the smaller number is strictly newer.
  \<open>newest_first\<close>: of two backups on disk the one with the smaller number is strictly
  newer.
\<close>

definition slot :: "path \<Rightarrow> int \<Rightarrow> path" where
  "slot p i = (if i = 0 then p else backup p i)"

definition tracked :: "world \<Rightarrow> bool" where
  "tracked w = (\<forall>q. begun w q = None \<longleftrightarrow> files w q = None)"

definition in_range :: "path \<Rightarrow> int \<Rightarrow> (path \<rightharpoonup> bytes) \<Rightarrow> bool" where
  "in_range p n fs = (\<forall>i. 1 \<le> i \<and> fs (backup p i) \<noteq> None \<longrightarrow> i \<le> n)"

definition aged :: "path \<Rightarrow> int \<Rightarrow> world \<Rightarrow> bool" where
  "aged p n w =
     (tracked w \<and>
      (\<forall>q t. begun w q = Some t \<longrightarrow> t \<le> int (length (trace w))) \<and>
      in_range p n (files w) \<and>
      (\<forall>i j s t. 0 \<le> i \<and> i < j \<and> begun w (slot p i) = Some s \<and> begun w (slot p j) = Some t
          \<longrightarrow> t < s))"

definition newest_first :: "path \<Rightarrow> world \<Rightarrow> bool" where
  "newest_first p w =
     (\<forall>i j. 1 \<le> i \<and> i < j \<and> files w (backup p i) \<noteq> None \<and> files w (backup p j) \<noteq> None \<longrightarrow>
        (\<exists>s t. begun w (backup p i) = Some s \<and> begun w (backup p j) = Some t \<and> t < s))"

text \<open>Sequences of operations on a Rotator, and those in which no rotation fails.\<close>

datatype op = OpWrite bytes | OpRotate | OpClose

fun apply_op :: "op \<Rightarrow> Rotator \<times> world \<Rightarrow> Rotator \<times> world" where
  "apply_op (OpWrite b) (r, w) = snd (Write r b w)"
| "apply_op OpRotate (r, w) = snd (rotate_r r w)"
| "apply_op OpClose (r, w) = snd (Close r w)"

fun rotation_fails :: "op \<Rightarrow> Rotator \<times> world \<Rightarrow> bool" where
  "rotation_fails (OpWrite b) (r, w) =
     (case Write_open r w of
        (None, r1, w1) \<Rightarrow> fst (Write_rotate r1 b w1) \<noteq> None
      | (Some e, r1, w1) \<Rightarrow> False)"
| "rotation_fails OpRotate (r, w) = (fst (rotate_r r w) \<noteq> None)"
| "rotation_fails OpClose (r, w) = False"

fun run :: "op list \<Rightarrow> Rotator \<times> world \<Rightarrow> Rotator \<times> world" where
  "run [] s = s"
| "run (x # xs) s = run xs (apply_op x s)"

fun rotations_complete :: "op list \<Rightarrow> Rotator \<times> world \<Rightarrow> bool" where
  "rotations_complete [] s = True"
| "rotations_complete (x # xs) s = (\<not> rotation_fails x s \<and> rotations_complete xs (apply_op x s))"

text \<open>A sequence of writes that all succeed.\<close>

fun writes :: "bytes list \<Rightarrow> Rotator \<Rightarrow> world \<Rightarrow> (Rotator \<times> world) option" where
  "writes [] r w = Some (r, w)"
| "writes (b # bs) r w =
     (case Write r b w of
        ((n, None), r', w') \<Rightarrow> writes bs r' w'
      | ((n, Some e), r', w') \<Rightarrow> None)"

text \<open>
  States to run the code on: a Rotator for the path \<open>log\<close> as \<open>New\<close> leaves it,
  the same with descriptor 3 open on the file, and a machine with the given files and
  fault script. The files are listed from the newest to the oldest, all begun before
  time 0.
\<close>

definition ex_rotator :: "int \<Rightarrow> int \<Rightarrow> Rotator" where
  "ex_rotator ms mb = \<lparr>path = ''log'', maxSize = ms, maxBackups = mb, file_r = None, size_r = 0\<rparr>"

definition ex_opened :: "int \<Rightarrow> int \<Rightarrow> int \<Rightarrow> Rotator" where
  "ex_opened ms mb sz = (ex_rotator ms mb)\<lparr>file_r := Some (Handle 3 ''log''), size_r := sz\<rparr>"

fun stamps :: "(path \<times> bytes) list \<Rightarrow> int \<Rightarrow> (path \<rightharpoonup> int)" where
  "stamps [] t = Map.empty"
| "stamps ((p, c) # fs) t = (stamps fs (t - 1))(p \<mapsto> t)"

definition ex_disk :: "(path \<times> bytes) list \<Rightarrow> fault list \<Rightarrow> world" where
  "ex_disk fs fl =
     \<lparr>files = map_of fs, begun = stamps fs (- 1), parents_made = {}, open_fds = {3},
      next_fd = 4, faults = fl, trace = []\<rparr>"

text \<open>
  Three machines: one where the sixth call from now fails, one with a backup left by an
  earlier run, one where the next call fails.
\<close>

definition ex_sixth_call_fails :: world where
  "ex_sixth_call_fails =
     ex_disk [(''log'', ''aaaa''), (''log-1'', ''b'')]
       [NoFault, NoFault, NoFault, NoFault, NoFault, Fault EIO 0]"

definition ex_old_backup :: world where
  "ex_old_backup = ex_disk [(''log'', ''123456789''), (''log-1'', ''old'')] []"

definition ex_next_call_fails :: world where
  "ex_next_call_fails = ex_disk [(''log'', ''123456789'')] [Fault EIO 0]"

section \<open>Properties of the formatting and of the arithmetic\<close>

lemma digit_inj: "a < 10 \<Longrightarrow> b < 10 \<Longrightarrow> digit a = digit b \<Longrightarrow> a = b"
proof -
  assume a: "a < 10" and b: "b < 10" and e: "digit a = digit b"
  have A: "a \<in> {0,1,2,3,4,5,6,7,8,9}" using a by auto
  have B: "b \<in> {0,1,2,3,4,5,6,7,8,9}" using b by auto
  show ?thesis using A B e by (auto simp: digit_def)
qed

lemma itoa_nonempty: "itoa n \<noteq> []"
  by (subst itoa.simps) simp

lemma itoa_inj: "itoa m = itoa n \<Longrightarrow> m = n"
proof (induction m arbitrary: n rule: itoa.induct)
  case (1 m)
  show ?case
  proof (cases "m < 10")
    case True
    note m = this
    show ?thesis
    proof (cases "n < 10")
      case True
      with m "1.prems" show ?thesis
        by (subst (asm) itoa.simps, subst (asm) (2) itoa.simps) (simp add: digit_inj)
    next
      case False
      have "itoa n = itoa (n div 10) @ [digit (n mod 10)]"
        using False by (subst itoa.simps) simp
      moreover have "itoa m = [digit m]" using m by (subst itoa.simps) simp
      ultimately show ?thesis using "1.prems" itoa_nonempty[of "n div 10"] by simp
    qed
  next
    case False
    note m = this
    have em: "itoa m = itoa (m div 10) @ [digit (m mod 10)]"
      using m by (subst itoa.simps) simp
    show ?thesis
    proof (cases "n < 10")
      case True
      have "itoa n = [digit n]" using True by (subst itoa.simps) simp
      with em "1.prems" itoa_nonempty[of "m div 10"] show ?thesis by simp
    next
      case False
      have en: "itoa n = itoa (n div 10) @ [digit (n mod 10)]"
        using False by (subst itoa.simps) simp
      from em en "1.prems" have a: "itoa (m div 10) = itoa (n div 10)"
        and b: "digit (m mod 10) = digit (n mod 10)" by simp_all
      from "1.IH"[OF m a] have "m div 10 = n div 10" .
      moreover from b have "m mod 10 = n mod 10" by (intro digit_inj) simp_all
      ultimately show ?thesis by (metis div_mult_mod_eq)
    qed
  qed
qed

lemma backup_inj: "0 \<le> i \<Longrightarrow> 0 \<le> j \<Longrightarrow> backup p i = backup p j \<Longrightarrow> i = j"
  by (auto simp: backup_def fmt_d_def dest: itoa_inj)

lemma backup_eq_iff: "0 \<le> i \<Longrightarrow> 0 \<le> j \<Longrightarrow> backup p i = backup p j \<longleftrightarrow> i = j"
  by (auto dest: backup_inj)

lemma backup_neq_path [simp]: "backup p i \<noteq> p" "p \<noteq> backup p i"
  by (auto simp: backup_def)

lemma int64_id: "- (2 ^ 63) \<le> x \<Longrightarrow> x < 2 ^ 63 \<Longrightarrow> int64 x = x"
  by (simp add: int64_def)

lemma int64_range: "- (2 ^ 63) \<le> int64 x" "int64 x < 2 ^ 63"
  by (simp_all add: int64_def)

text \<open>Below \<open>2^63\<close> the sum of a size and a length is the sum of the integers.\<close>

lemma add64_length:
  assumes "0 \<le> s" "s + int (length b) < 2 ^ 63"
  shows "add64 s (int64 (int (length b))) = s + int (length b)"
proof -
  have "int64 (int (length b)) = int (length b)" using assms by (intro int64_id) simp_all
  then show ?thesis using assms by (simp add: add64_def int64_id)
qed


section \<open>What each call does to the world\<close>

lemmas os_defs = os_Stat_def os_MkdirAllDir_def os_Create_def os_OpenFile_def os_Remove_def
  os_Rename_def file_Write_def file_Close_def enter_def

lemma os_Rename_effect:
  "os_Rename a b w = (res, w') \<Longrightarrow>
     trace w' = trace w @ [Rename a b] \<and> faults w' = tl (faults w) \<and>
     open_fds w' = open_fds w \<and> next_fd w' = next_fd w \<and> parents_made w' = parents_made w \<and>
     (case res of
        None \<Rightarrow> files w a \<noteq> None \<and> files w' = ((files w)(a := None))(b := files w a)
      | Some e \<Rightarrow> files w' = files w \<and> (IsNotExist e \<longrightarrow> files w a = None))"
  by (auto simp: os_Rename_def enter_def IsNotExist_def
           split: prod.splits fault.splits option.splits list.splits)

lemma os_Remove_effect:
  "os_Remove a w = (res, w') \<Longrightarrow>
     trace w' = trace w @ [Remove a] \<and> faults w' = tl (faults w) \<and>
     open_fds w' = open_fds w \<and> next_fd w' = next_fd w \<and> parents_made w' = parents_made w \<and>
     (case res of
        None \<Rightarrow> files w' = (files w)(a := None)
      | Some e \<Rightarrow> files w' = files w \<and> (IsNotExist e \<longrightarrow> files w a = None))"
  by (auto simp: os_Remove_def enter_def IsNotExist_def
           split: prod.splits fault.splits option.splits list.splits)

lemma os_Create_effect:
  "os_Create a w = (res, w') \<Longrightarrow>
     trace w' = trace w @ [Create a] \<and> faults w' = tl (faults w) \<and>
     parents_made w' = parents_made w \<and>
     (case res of
        Inr f \<Rightarrow> files w' = (files w)(a \<mapsto> []) \<and> f = Handle (next_fd w) a \<and>
                 open_fds w' = insert (next_fd w) (open_fds w) \<and> next_fd w' = Suc (next_fd w)
      | Inl e \<Rightarrow> files w' = files w \<and> open_fds w' = open_fds w \<and> next_fd w' = next_fd w \<and>
                 \<not> IsNotExist e)"
  by (auto simp: os_Create_def enter_def IsNotExist_def
           split: prod.splits fault.splits option.splits list.splits)

lemma os_OpenFile_effect:
  "os_OpenFile a w = (res, w') \<Longrightarrow>
     trace w' = trace w @ [OpenFile a] \<and> faults w' = tl (faults w) \<and>
     parents_made w' = parents_made w \<and> files w' = files w \<and>
     (case res of
        Inr f \<Rightarrow> files w a \<noteq> None \<and> f = Handle (next_fd w) a \<and>
                 open_fds w' = insert (next_fd w) (open_fds w) \<and> next_fd w' = Suc (next_fd w)
      | Inl e \<Rightarrow> open_fds w' = open_fds w \<and> next_fd w' = next_fd w)"
  by (auto simp: os_OpenFile_def enter_def IsNotExist_def
           split: prod.splits fault.splits option.splits list.splits)

lemma os_Stat_effect:
  "os_Stat a w = (res, w') \<Longrightarrow>
     w' = w\<lparr>faults := tl (faults w), trace := trace w @ [Stat a]\<rparr> \<and>
     (case res of
        Inr fi \<Rightarrow> (\<exists>c. files w a = Some c \<and> Size fi = int (length c))
      | Inl e \<Rightarrow> (IsNotExist e \<longleftrightarrow> files w a = None \<and> (faults w = [] \<or> hd (faults w) = NoFault)))"
  by (auto simp: os_Stat_def enter_def IsNotExist_def
           split: prod.splits fault.splits option.splits list.splits)

lemma os_MkdirAllDir_effect:
  "os_MkdirAllDir a w = (res, w') \<Longrightarrow>
     trace w' = trace w @ [MkdirAllDir a] \<and> faults w' = tl (faults w) \<and>
     files w' = files w \<and> open_fds w' = open_fds w \<and> next_fd w' = next_fd w \<and>
     (case res of
        None \<Rightarrow> parents_made w' = insert a (parents_made w)
      | Some e \<Rightarrow> parents_made w' = parents_made w)"
  by (auto simp: os_MkdirAllDir_def enter_def IsNotExist_def
           split: prod.splits fault.splits option.splits list.splits)

lemma file_Close_effect:
  "file_Close f w = (res, w') \<Longrightarrow>
     trace w' = trace w @ [FClose f] \<and> faults w' = tl (faults w) \<and>
     files w' = files w \<and> parents_made w' = parents_made w \<and> next_fd w' = next_fd w \<and>
     open_fds w' = open_fds w - {fd f}"
  by (auto simp: file_Close_def enter_def
           split: prod.splits fault.splits option.splits list.splits if_splits)

lemma dom_append_to [simp]: "dom (append_to p b fs) = dom fs"
  by (auto simp: append_to_def split: option.splits)

lemma append_to_None [simp]: "append_to p b fs q = None \<longleftrightarrow> fs q = None"
  by (auto simp: append_to_def split: option.splits)

lemma take_min_length [simp]: "take (min k (length b)) b = take k b"
  by (cases "k \<le> length b") (simp_all add: min_def)

lemma file_Write_effect:
  "file_Write f b w = ((n, err), w') \<Longrightarrow>
     trace w' = trace w @ [FWrite f b] \<and> faults w' = tl (faults w) \<and>
     parents_made w' = parents_made w \<and> next_fd w' = next_fd w \<and>
     open_fds w' = open_fds w \<and> n \<le> length b \<and>
     files w' = append_to (name f) (take n b) (files w) \<and>
     (err = None \<longrightarrow> n = length b)"
  by (auto simp: file_Write_def enter_def append_to_def
           split: prod.splits fault.splits option.splits list.splits if_splits)

section \<open>The renaming loop\<close>

text \<open>One round of the loop that goes on.\<close>

lemma shift_backups_step:
  assumes "shift_backups p i w = (res, w')" "0 < i"
  obtains r1 w1 where "os_Rename (oldPath p i) (backup p i) w = (r1, w1)"
    and "(\<exists>e. r1 = Some e \<and> \<not> IsNotExist e \<and> res = Some (Wrap e) \<and> w' = w1) \<or>
         ((r1 = None \<or> (\<exists>e. r1 = Some e \<and> IsNotExist e)) \<and> shift_backups p (i - 1) w1 = (res, w'))"
proof -
  obtain r1 w1 where R: "os_Rename (oldPath p i) (backup p i) w = (r1, w1)"
    by (cases "os_Rename (oldPath p i) (backup p i) w")
  show thesis
    using assms R
    by (intro that[OF R]) (subst (asm) shift_backups.simps, auto split: option.splits if_splits)
qed

lemma shift_backups_stop: "\<not> 0 < i \<Longrightarrow> shift_backups p i w = (None, w)"
  by (subst shift_backups.simps) simp

lemma renames_step: "0 < i \<Longrightarrow> renames p i = Rename (oldPath p i) (backup p i) # renames p (i - 1)"
  by (simp add: renames_def upto_rec2)

lemma renames_stop: "\<not> 0 < i \<Longrightarrow> renames p i = []"
  by (simp add: renames_def)

lemma shift_backups_trace:
  "shift_backups p i w = (None, w') \<Longrightarrow> trace w' = trace w @ renames p i"
proof (induction "nat i" arbitrary: i w)
  case 0
  then show ?case by (simp add: shift_backups_stop renames_stop)
next
  case (Suc k)
  then have pos: "0 < i" by simp
  from Suc.prems pos obtain r1 w1 where R: "os_Rename (oldPath p i) (backup p i) w = (r1, w1)"
    and S: "shift_backups p (i - 1) w1 = (None, w')"
    by (elim shift_backups_step) auto
  have "k = nat (i - 1)" using Suc.hyps(2) by simp
  from Suc.hyps(1)[OF this S] have "trace w' = trace w1 @ renames p (i - 1)" .
  moreover from os_Rename_effect[OF R] have "trace w1 = trace w @ [Rename (oldPath p i) (backup p i)]" by simp
  ultimately show ?case by (simp add: renames_step[OF pos])
qed

text \<open>Any run of the loop, failed or not, makes only rename calls.\<close>

lemma shift_backups_calls:
  "shift_backups p i w = (res, w') \<Longrightarrow>
     (\<exists>cs. trace w' = trace w @ cs \<and> (\<forall>c\<in>set cs. is_Rename c)) \<and>
     next_fd w' = next_fd w \<and> open_fds w' = open_fds w \<and> parents_made w' = parents_made w"
proof (induction "nat i" arbitrary: i w)
  case 0
  then show ?case by (simp add: shift_backups_stop)
next
  case (Suc k)
  then have pos: "0 < i" by simp
  have k: "k = nat (i - 1)" using Suc.hyps(2) by simp
  from Suc.prems pos show ?case
  proof (elim shift_backups_step)
    fix r1 w1
    assume R: "os_Rename (oldPath p i) (backup p i) w = (r1, w1)"
      and D: "(\<exists>e. r1 = Some e \<and> \<not> IsNotExist e \<and> res = Some (Wrap e) \<and> w' = w1) \<or>
         ((r1 = None \<or> (\<exists>e. r1 = Some e \<and> IsNotExist e)) \<and> shift_backups p (i - 1) w1 = (res, w'))"
    note T = os_Rename_effect[OF R]
    from D show ?thesis
    proof
      assume "\<exists>e. r1 = Some e \<and> \<not> IsNotExist e \<and> res = Some (Wrap e) \<and> w' = w1"
      with T show ?thesis by auto
    next
      assume "(r1 = None \<or> (\<exists>e. r1 = Some e \<and> IsNotExist e)) \<and> shift_backups p (i - 1) w1 = (res, w')"
      then have "shift_backups p (i - 1) w1 = (res, w')" by simp
      from Suc.hyps(1)[OF k this] obtain cs where "trace w' = trace w1 @ cs" "\<forall>c\<in>set cs. is_Rename c"
        and "next_fd w' = next_fd w1 \<and> open_fds w' = open_fds w1 \<and> parents_made w' = parents_made w1"
        by blast
      with T show ?thesis by auto
    qed
  qed
qed

text \<open>What a completed run of the loop does to the files.\<close>

lemma shift_backups_files:
  assumes "shift_backups p i w = (None, w')" "0 < i \<longrightarrow> files w (backup p i) = None"
  shows "(\<forall>j. 1 \<le> j \<and> j \<le> i \<longrightarrow> files w' (backup p j) = files w (oldPath p j)) \<and>
         (0 < i \<longrightarrow> files w' p = None) \<and>
         (\<forall>q. q \<noteq> p \<and> (\<forall>j. 1 \<le> j \<and> j \<le> i \<longrightarrow> q \<noteq> backup p j) \<longrightarrow> files w' q = files w q)"
  using assms
proof (induction "nat i" arbitrary: i w)
  case 0
  then show ?case by (auto simp add: shift_backups_stop)
next
  case (Suc k)
  then have pos: "0 < i" by simp
  have k: "k = nat (i - 1)" using Suc.hyps(2) by simp
  from Suc.prems(1) pos obtain r1 w1 where R: "os_Rename (oldPath p i) (backup p i) w = (r1, w1)"
    and T: "r1 = None \<or> (\<exists>e. r1 = Some e \<and> IsNotExist e)"
    and S: "shift_backups p (i - 1) w1 = (None, w')"
    by (elim shift_backups_step) auto
  have vac: "files w (backup p i) = None" using Suc.prems(2) pos by simp
  have neq: "oldPath p i \<noteq> backup p i"
    using pos by (auto simp: oldPath_def backup_eq_iff)
  have F1: "files w1 = ((files w)(oldPath p i := None))(backup p i := files w (oldPath p i))"
    using os_Rename_effect[OF R] T vac by (auto simp: fun_eq_iff)
  have vac1: "0 < i - 1 \<longrightarrow> files w1 (backup p (i - 1)) = None"
    using F1 neq by (auto simp: oldPath_def)
  note IH = Suc.hyps(1)[OF k S vac1]
  show ?case
  proof (intro conjI allI impI)
    fix j assume j: "1 \<le> j \<and> j \<le> i"
    show "files w' (backup p j) = files w (oldPath p j)"
    proof (cases "j = i")
      case True
      have "files w' (backup p i) = files w1 (backup p i)"
        using IH pos by (auto simp: backup_eq_iff)
      then show ?thesis using True F1 by simp
    next
      case False
      then have j': "1 \<le> j \<and> j \<le> i - 1" using j by simp
      then have "files w' (backup p j) = files w1 (oldPath p j)" using IH by blast
      moreover have "oldPath p j \<noteq> backup p i" using j' pos by (auto simp: oldPath_def backup_eq_iff)
      moreover have "oldPath p j \<noteq> oldPath p i" using j' pos by (auto simp: oldPath_def backup_eq_iff)
      ultimately show ?thesis using F1 by simp
    qed
  next
    assume "0 < i"
    show "files w' p = None"
    proof (cases "i = 1")
      case True
      then have "files w' = files w1" using S by (simp add: shift_backups_stop)
      then show ?thesis using F1 True by (simp add: oldPath_def)
    next
      case False
      then show ?thesis using IH pos by simp
    qed
  next
    fix q assume q: "q \<noteq> p \<and> (\<forall>j. 1 \<le> j \<and> j \<le> i \<longrightarrow> q \<noteq> backup p j)"
    then have "files w' q = files w1 q" using IH by simp
    moreover have "q \<noteq> backup p i" using q pos by simp
    moreover have "q \<noteq> oldPath p i" using q pos by (auto simp: oldPath_def)
    ultimately show "files w' q = files w q" using F1 by simp
  qed
qed

section \<open>The phases of rotate and Write\<close>

lemma rotate_close_effect:
  "rotate_close r w = (res, r1, w1) \<Longrightarrow>
     r1 = r\<lparr>file_r := None\<rparr> \<and> files w1 = files w \<and> parents_made w1 = parents_made w \<and>
     next_fd w1 = next_fd w \<and>
     trace w1 = trace w @ (case file_r r of None \<Rightarrow> [] | Some f \<Rightarrow> [FClose f])"
  by (auto simp: rotate_close_def split: option.splits prod.splits dest: file_Close_effect)

lemma rotate_files_calls:
  assumes "rotate_files r w = (res, w')"
  shows "(\<exists>cs. trace w' = trace w @ cs \<and> (\<forall>c\<in>set cs. is_Remove c \<or> is_Rename c)) \<and>
     next_fd w' = next_fd w \<and> open_fds w' = open_fds w \<and> parents_made w' = parents_made w"
proof (cases "maxBackups r < 1")
  case True
  obtain r0 w0 where R: "os_Remove (path r) w = (r0, w0)" by (cases "os_Remove (path r) w")
  then have "w' = w0" using assms True by (auto simp: rotate_files_def split: option.splits if_splits)
  then show ?thesis using os_Remove_effect[OF R] by auto
next
  case False
  obtain r0 w0 where R: "os_Remove (backup (path r) (maxBackups r)) w = (r0, w0)"
    by (cases "os_Remove (backup (path r) (maxBackups r)) w")
  note e = os_Remove_effect[OF R]
  from assms False R have "w' = w0 \<or> shift_backups (path r) (maxBackups r) w0 = (res, w')"
    by (auto simp: rotate_files_def split: option.splits if_splits)
  then show ?thesis
  proof
    assume "w' = w0"
    then show ?thesis using e by auto
  next
    assume "shift_backups (path r) (maxBackups r) w0 = (res, w')"
    from shift_backups_calls[OF this] obtain cs where "trace w' = trace w0 @ cs" "\<forall>c\<in>set cs. is_Rename c"
      and "next_fd w' = next_fd w0 \<and> open_fds w' = open_fds w0 \<and> parents_made w' = parents_made w0"
      by blast
    then show ?thesis using e by auto
  qed
qed

lemma rotate_files_backups:
  assumes "1 \<le> maxBackups r" "rotate_files r w = (None, w')"
  shows "trace w' = trace w @ Remove (backup (path r) (maxBackups r)) # renames (path r) (maxBackups r)"
    and "\<forall>i. 1 \<le> i \<and> i \<le> maxBackups r \<longrightarrow> files w' (backup (path r) i) = files w (oldPath (path r) i)"
    and "files w' (path r) = None"
    and "\<forall>q. q \<noteq> path r \<and> (\<forall>i. 1 \<le> i \<and> i \<le> maxBackups r \<longrightarrow> q \<noteq> backup (path r) i)
            \<longrightarrow> files w' q = files w q"
proof -
  let ?p = "path r" and ?n = "maxBackups r"
  obtain r0 w0 where R: "os_Remove (backup ?p ?n) w = (r0, w0)"
    by (cases "os_Remove (backup ?p ?n) w")
  have S: "shift_backups ?p ?n w0 = (None, w')"
    using assms R by (auto simp: rotate_files_def split: option.splits if_splits)
  have ok: "r0 = None \<or> (\<exists>e. r0 = Some e \<and> IsNotExist e)"
    using assms R by (auto simp: rotate_files_def split: option.splits if_splits)
  have T0: "trace w0 = trace w @ [Remove (backup ?p ?n)]"
    using os_Remove_effect[OF R] by simp
  have F0: "files w0 = (files w)(backup ?p ?n := None)"
    using os_Remove_effect[OF R] ok by (auto simp: fun_eq_iff)
  have vac: "0 < ?n \<longrightarrow> files w0 (backup ?p ?n) = None" using F0 by simp
  note L = shift_backups_files[OF S vac]
  show "trace w' = trace w @ Remove (backup ?p ?n) # renames ?p ?n"
    using shift_backups_trace[OF S] T0 by simp
  show "\<forall>i. 1 \<le> i \<and> i \<le> ?n \<longrightarrow> files w' (backup ?p i) = files w (oldPath ?p i)"
  proof (intro allI impI)
    fix i assume i: "1 \<le> i \<and> i \<le> ?n"
    then have "files w' (backup ?p i) = files w0 (oldPath ?p i)" using L by blast
    moreover have "oldPath ?p i \<noteq> backup ?p ?n" using i by (auto simp: oldPath_def backup_eq_iff)
    ultimately show "files w' (backup ?p i) = files w (oldPath ?p i)" using F0 by simp
  qed
  show "files w' ?p = None" using L assms(1) by simp
  show "\<forall>q. q \<noteq> ?p \<and> (\<forall>i. 1 \<le> i \<and> i \<le> ?n \<longrightarrow> q \<noteq> backup ?p i) \<longrightarrow> files w' q = files w q"
  proof (intro allI impI)
    fix q assume q: "q \<noteq> ?p \<and> (\<forall>i. 1 \<le> i \<and> i \<le> ?n \<longrightarrow> q \<noteq> backup ?p i)"
    then have "files w' q = files w0 q" using L by blast
    moreover have "q \<noteq> backup ?p ?n" using q assms(1) by simp
    ultimately show "files w' q = files w q" using F0 by simp
  qed
qed

lemma rotate_create_effect:
  "rotate_create r w = (None, r', w') \<Longrightarrow>
     r' = r\<lparr>file_r := Some (Handle (next_fd w) (path r)), size_r := 0\<rparr> \<and>
     files w' = (files w)(path r \<mapsto> []) \<and> trace w' = trace w @ [Create (path r)] \<and>
     open_fds w' = insert (next_fd w) (open_fds w) \<and> parents_made w' = parents_made w"
  by (auto simp: rotate_create_def split: sum.splits prod.splits dest!: os_Create_effect)

lemma rotate_success:
  assumes "rotate_r r w = (None, r', w')"
  obtains w1 w2 where "rotate_close r w = (None, r\<lparr>file_r := None\<rparr>, w1)"
    and "rotate_files (r\<lparr>file_r := None\<rparr>) w1 = (None, w2)"
    and "rotate_create (r\<lparr>file_r := None\<rparr>) w2 = (None, r', w')"
proof -
  obtain e1 r1 w1 where C: "rotate_close r w = (e1, r1, w1)" by (cases "rotate_close r w")
  obtain e2 w2 where F: "rotate_files r1 w1 = (e2, w2)" by (cases "rotate_files r1 w1")
  have r1: "r1 = r\<lparr>file_r := None\<rparr>" using rotate_close_effect[OF C] by simp
  have "e1 = None" "e2 = None" "rotate_create r1 w2 = (None, r', w')"
    using assms C F by (auto simp: rotate_r_def split: option.splits)
  with C F r1 show thesis by (intro that[of w1 w2]) simp_all
qed

lemma rotate_backups_effect:
  assumes "1 \<le> maxBackups r" and "rotate_r r w = (None, r', w')"
  shows "trace w' = trace w @ (case file_r r of None \<Rightarrow> [] | Some f \<Rightarrow> [FClose f])
                       @ Remove (backup (path r) (maxBackups r))
                       # renames (path r) (maxBackups r) @ [Create (path r)]"
    and "\<forall>i. 1 \<le> i \<and> i \<le> maxBackups r \<longrightarrow>
               files w' (backup (path r) i) = files w (oldPath (path r) i)"
    and "files w' (path r) = Some []"
    and "\<forall>q. q \<noteq> path r \<and> (\<forall>i. 1 \<le> i \<and> i \<le> maxBackups r \<longrightarrow> q \<noteq> backup (path r) i)
               \<longrightarrow> files w' q = files w q"
    and "r' = r\<lparr>file_r := Some (Handle (next_fd w) (path r)), size_r := 0\<rparr>"
    and "next_fd w \<in> open_fds w'"
proof -
  let ?r1 = "r\<lparr>file_r := None\<rparr>"
  from assms(2) obtain w1 w2 where C: "rotate_close r w = (None, ?r1, w1)"
    and F: "rotate_files ?r1 w1 = (None, w2)"
    and N: "rotate_create ?r1 w2 = (None, r', w')"
    by (rule rotate_success)
  have n1: "1 \<le> maxBackups ?r1" using assms(1) by simp
  note c = rotate_close_effect[OF C]
  note f = rotate_files_backups[OF n1 F]
  note n = rotate_create_effect[OF N]
  have nf: "next_fd w2 = next_fd w" using c rotate_files_calls[OF F] by simp
  show "trace w' = trace w @ (case file_r r of None \<Rightarrow> [] | Some f \<Rightarrow> [FClose f])
                       @ Remove (backup (path r) (maxBackups r))
                       # renames (path r) (maxBackups r) @ [Create (path r)]"
    using c f(1) n by simp
  show "\<forall>i. 1 \<le> i \<and> i \<le> maxBackups r \<longrightarrow>
               files w' (backup (path r) i) = files w (oldPath (path r) i)"
    using c f(2) n by simp
  show "files w' (path r) = Some []" using n by simp
  show "\<forall>q. q \<noteq> path r \<and> (\<forall>i. 1 \<le> i \<and> i \<le> maxBackups r \<longrightarrow> q \<noteq> backup (path r) i)
               \<longrightarrow> files w' q = files w q"
    using c f(4) n by simp
  show "r' = r\<lparr>file_r := Some (Handle (next_fd w) (path r)), size_r := 0\<rparr>"
    using n nf by simp
  show "next_fd w \<in> open_fds w'" using n nf by simp
qed


lemma file_calls_only:
  "is_Remove c \<or> is_Rename c \<or> is_Create c \<Longrightarrow> \<not> is_FWrite c \<and> \<not> is_FClose c"
  by (cases c) simp_all


lemma calls_append: "trace w' = trace w @ cs \<Longrightarrow> calls w w' = cs"
  by (simp add: calls_def)

lemma calls_self [simp]: "calls w w = []"
  by (simp add: calls_def)

text \<open>The calls of \<open>rotate\<close>: the close of the open file, then removes, renames and a create.\<close>

lemma rotate_create_calls:
  "rotate_create r w = (res, r', w') \<Longrightarrow>
     trace w' = trace w @ [Create (path r)] \<and> parents_made w' = parents_made w \<and>
     (res \<noteq> None \<longrightarrow> r' = r \<and> files w' = files w)"
  by (auto simp: rotate_create_def split: sum.splits prod.splits dest!: os_Create_effect)

lemma rotate_calls:
  assumes "rotate_r r w = (res, r', w')"
  shows "\<exists>cs. trace w' = trace w @ (case file_r r of None \<Rightarrow> [] | Some f \<Rightarrow> [FClose f]) @ cs \<and>
           (\<forall>c\<in>set cs. is_Remove c \<or> is_Rename c \<or> is_Create c)"
    and "parents_made w' = parents_made w"
    and "res \<noteq> None \<longrightarrow> r' = r\<lparr>file_r := None\<rparr>"
    and "path r' = path r \<and> maxSize r' = maxSize r \<and> maxBackups r' = maxBackups r"
    and "res = None \<longrightarrow> file_r r' \<noteq> None \<and> size_r r' = 0 \<and> files w' (path r) = Some []"
proof -
  obtain e1 r1 w1 where C: "rotate_close r w = (e1, r1, w1)" by (cases "rotate_close r w")
  obtain e2 w2 where F: "rotate_files r1 w1 = (e2, w2)" by (cases "rotate_files r1 w1")
  obtain e3 r3 w3 where N: "rotate_create r1 w2 = (e3, r3, w3)" by (cases "rotate_create r1 w2")
  note c = rotate_close_effect[OF C]
  note f = rotate_files_calls[OF F]
  note n = rotate_create_calls[OF N]
  from f obtain cs where cs: "trace w2 = trace w1 @ cs" "\<forall>c\<in>set cs. is_Remove c \<or> is_Rename c" by blast
  have D: "(e1 \<noteq> None \<and> res = e1 \<and> r' = r1 \<and> w' = w1) \<or>
           (e1 = None \<and> e2 \<noteq> None \<and> res = e2 \<and> r' = r1 \<and> w' = w2) \<or>
           (e1 = None \<and> e2 = None \<and> res = e3 \<and> r' = r3 \<and> w' = w3)"
    using assms C F N by (auto simp: rotate_r_def split: option.splits)
  show "\<exists>cs. trace w' = trace w @ (case file_r r of None \<Rightarrow> [] | Some f \<Rightarrow> [FClose f]) @ cs \<and>
           (\<forall>c\<in>set cs. is_Remove c \<or> is_Rename c \<or> is_Create c)"
    using D
  proof (elim disjE)
    assume "e1 \<noteq> None \<and> res = e1 \<and> r' = r1 \<and> w' = w1"
    then show ?thesis using c by (intro exI[of _ "[]"]) simp
  next
    assume "e1 = None \<and> e2 \<noteq> None \<and> res = e2 \<and> r' = r1 \<and> w' = w2"
    then show ?thesis using c cs by (intro exI[of _ cs]) auto
  next
    assume "e1 = None \<and> e2 = None \<and> res = e3 \<and> r' = r3 \<and> w' = w3"
    then show ?thesis using c cs n by (intro exI[of _ "cs @ [Create (path r)]"]) auto
  qed
  show "parents_made w' = parents_made w" using D c f n by auto
  show "res \<noteq> None \<longrightarrow> r' = r\<lparr>file_r := None\<rparr>" using D c n by auto
  show "path r' = path r \<and> maxSize r' = maxSize r \<and> maxBackups r' = maxBackups r"
    using D c N by (auto simp: rotate_create_def split: sum.splits prod.splits)
  show "res = None \<longrightarrow> file_r r' \<noteq> None \<and> size_r r' = 0 \<and> files w' (path r) = Some []"
    using D c N by (auto simp: rotate_create_def split: sum.splits prod.splits dest!: os_Create_effect)
qed

text \<open>The opening phase of a write.\<close>

lemma Write_open_open: "file_r r = Some f \<Longrightarrow> Write_open r w = (None, r, w)"
  by (simp add: Write_open_def)

lemma Write_open_closed:
  assumes "file_r r = None" "Write_open r w = (res, r1, w1)"
  shows "\<exists>cs. trace w1 = trace w @ Stat (path r) # cs \<and>
           (\<forall>c\<in>set cs. c = MkdirAllDir (path r) \<or> c = Create (path r) \<or> c = OpenFile (path r))"
    and "res \<noteq> None \<longrightarrow> r1 = r \<and> files w1 = files w"
    and "res = None \<longrightarrow> file_r r1 \<noteq> None \<and> files w1 (path r) \<noteq> None \<and>
           (\<forall>q. q \<noteq> path r \<longrightarrow> files w1 q = files w q) \<and>
           (files w (path r) = None \<longrightarrow> size_r r1 = 0) \<and>
           (\<forall>c. files w (path r) = Some c \<longrightarrow> size_r r1 = int (length c) \<and> files w1 = files w)"
    and "path r1 = path r \<and> maxSize r1 = maxSize r \<and> maxBackups r1 = maxBackups r"
proof -
  obtain sres w0 where S: "os_Stat (path r) w = (sres, w0)" by (cases "os_Stat (path r) w")
  obtain mres wm where M: "os_MkdirAllDir (path r) w0 = (mres, wm)" by (cases "os_MkdirAllDir (path r) w0")
  obtain cres wc where C: "os_Create (path r) wm = (cres, wc)" by (cases "os_Create (path r) wm")
  obtain ores wo where O: "os_OpenFile (path r) w0 = (ores, wo)" by (cases "os_OpenFile (path r) w0")
  note s = os_Stat_effect[OF S] and m = os_MkdirAllDir_effect[OF M]
    and c = os_Create_effect[OF C] and o = os_OpenFile_effect[OF O]
  have s0: "trace w0 = trace w @ [Stat (path r)]" "files w0 = files w" using s by simp_all
  show "\<exists>cs. trace w1 = trace w @ Stat (path r) # cs \<and>
           (\<forall>c\<in>set cs. c = MkdirAllDir (path r) \<or> c = Create (path r) \<or> c = OpenFile (path r))"
    using assms S M C O s0 m c o
    by (auto simp: Write_open_def split: sum.splits option.splits if_splits)
  show "res \<noteq> None \<longrightarrow> r1 = r \<and> files w1 = files w"
    using assms S M C O s0 m c o
    by (auto simp: Write_open_def split: sum.splits option.splits if_splits)
  show "res = None \<longrightarrow> file_r r1 \<noteq> None \<and> files w1 (path r) \<noteq> None \<and>
           (\<forall>q. q \<noteq> path r \<longrightarrow> files w1 q = files w q) \<and>
           (files w (path r) = None \<longrightarrow> size_r r1 = 0) \<and>
           (\<forall>c. files w (path r) = Some c \<longrightarrow> size_r r1 = int (length c) \<and> files w1 = files w)"
    using assms S M C O s0 s m c o
    by (auto simp: Write_open_def IsNotExist_def split: sum.splits option.splits if_splits)
  show "path r1 = path r \<and> maxSize r1 = maxSize r \<and> maxBackups r1 = maxBackups r"
    using assms S M C O
    by (auto simp: Write_open_def split: sum.splits option.splits if_splits)
qed

lemma Write_open_success:
  assumes "Write_open r w = (None, r1, w1)"
  shows "file_r r1 \<noteq> None" and "path r1 = path r \<and> maxSize r1 = maxSize r \<and> maxBackups r1 = maxBackups r"
    and "\<exists>cs. trace w1 = trace w @ cs \<and> (\<forall>c\<in>set cs. \<not> is_FClose c \<and> \<not> is_FWrite c)"
proof -
  show "file_r r1 \<noteq> None"
  proof (cases "file_r r")
    case None
    from Write_open_closed(3)[OF None assms] show ?thesis by simp
  next
    case (Some f)
    then show ?thesis using assms by (simp add: Write_open_open)
  qed
  show "path r1 = path r \<and> maxSize r1 = maxSize r \<and> maxBackups r1 = maxBackups r"
  proof (cases "file_r r")
    case None
    from Write_open_closed(4)[OF None assms] show ?thesis by simp
  next
    case (Some f)
    then show ?thesis using assms by (simp add: Write_open_open)
  qed
  show "\<exists>cs. trace w1 = trace w @ cs \<and> (\<forall>c\<in>set cs. \<not> is_FClose c \<and> \<not> is_FWrite c)"
  proof (cases "file_r r")
    case None
    from Write_open_closed(1)[OF None assms] obtain cs where
      "trace w1 = trace w @ Stat (path r) # cs"
      "\<forall>c\<in>set cs. c = MkdirAllDir (path r) \<or> c = Create (path r) \<or> c = OpenFile (path r)" by blast
    then show ?thesis
      by (intro exI[of _ "Stat (path r) # cs"]) auto
  next
    case (Some f)
    then show ?thesis using assms by (simp add: Write_open_open)
  qed
qed

text \<open>The write itself.\<close>

lemma Write_file_effect:
  assumes "Write_file r b w = ((n, err), r', w')"
  shows "trace w' = trace w @ (case file_r r of None \<Rightarrow> [] | Some f \<Rightarrow> [FWrite f b])"
    and "r' = r\<lparr>size_r := add64 (size_r r) (int64 (int n))\<rparr>"
    and "\<forall>q. files w' q = None \<longleftrightarrow> files w q = None" and "n \<le> length b"
    and "err = None \<longrightarrow> n = length b"
proof -
  have "trace w' = trace w @ (case file_r r of None \<Rightarrow> [] | Some f \<Rightarrow> [FWrite f b]) \<and>
        r' = r\<lparr>size_r := add64 (size_r r) (int64 (int n))\<rparr> \<and>
        (\<forall>q. files w' q = None \<longleftrightarrow> files w q = None) \<and> n \<le> length b \<and>
        (err = None \<longrightarrow> n = length b)"
  proof (cases "file_r r")
    case None
    then show ?thesis using assms by (auto simp: Write_file_def)
  next
    case (Some f)
    obtain n0 e0 w0 where W: "file_Write f b w = ((n0, e0), w0)"
      by (cases "file_Write f b w") auto
    have "n = n0" "err = map_option Wrap e0" "w' = w0"
      "r' = r\<lparr>size_r := add64 (size_r r) (int64 (int n))\<rparr>"
      using assms Some W by (auto simp: Write_file_def)
    then show ?thesis using file_Write_effect[OF W] Some by simp
  qed
  then show "trace w' = trace w @ (case file_r r of None \<Rightarrow> [] | Some f \<Rightarrow> [FWrite f b])"
    and "r' = r\<lparr>size_r := add64 (size_r r) (int64 (int n))\<rparr>"
    and "\<forall>q. files w' q = None \<longleftrightarrow> files w q = None" and "n \<le> length b"
    and "err = None \<longrightarrow> n = length b"
    by blast+
qed

lemma Write_closed_starts_with_Stat:
  assumes "file_r r = None"
  shows "\<exists>cs. calls w (snd (snd (Write r b w))) = Stat (path r) # cs"
proof -
  obtain res r1 w1 where O: "Write_open r w = (res, r1, w1)" by (cases "Write_open r w")
  from Write_open_closed(1)[OF assms O] obtain cs where
    T1: "trace w1 = trace w @ Stat (path r) # cs" by blast
  show ?thesis
  proof (cases res)
    case (Some e)
    then have "snd (snd (Write r b w)) = w1" using O by (simp add: Write_def)
    then show ?thesis using T1 by (simp add: calls_def)
  next
    case None
    obtain res2 r2 w2 where R: "Write_rotate r1 b w1 = (res2, r2, w2)" by (cases "Write_rotate r1 b w1")
    have T2: "\<exists>cs. trace w2 = trace w1 @ cs"
    proof (cases "maxSize r1 < add64 (size_r r1) (int64 (int (length b)))")
      case True
      then have "rotate_r r1 w1 = (res2, r2, w2)" using R by (simp add: Write_rotate_def)
      from rotate_calls(1)[OF this] show ?thesis by auto
    next
      case False
      then show ?thesis using R by (simp add: Write_rotate_def)
    qed
    show ?thesis
    proof (cases res2)
      case (Some e)
      then have "snd (snd (Write r b w)) = w2" using O None R by (simp add: Write_def Write_rest_def)
      then show ?thesis using T1 T2 by (auto simp: calls_def)
    next
      case N2: None
      obtain n err r3 w3 where F: "Write_file r2 b w2 = ((n, err), r3, w3)"
        by (cases "Write_file r2 b w2") auto
      have "snd (snd (Write r b w)) = w3" using O None R N2 F by (simp add: Write_def Write_rest_def)
      then show ?thesis using T1 T2 Write_file_effect(1)[OF F] by (auto simp: calls_def)
    qed
  qed
qed


subsection \<open>Rotation that keeps no backup\<close>

lemma rotate_files_none:
  assumes "maxBackups r < 1" "rotate_files r w = (None, w')"
  shows "trace w' = trace w @ [Remove (path r)]" and "files w' = (files w)(path r := None)"
proof -
  obtain r0 w0 where R: "os_Remove (path r) w = (r0, w0)" by (cases "os_Remove (path r) w")
  have ok: "r0 = None \<or> (\<exists>e. r0 = Some e \<and> IsNotExist e)" and w: "w' = w0"
    using assms R by (auto simp: rotate_files_def split: option.splits if_splits)
  show "trace w' = trace w @ [Remove (path r)]" using os_Remove_effect[OF R] w by simp
  show "files w' = (files w)(path r := None)"
    using os_Remove_effect[OF R] ok w by (auto simp: fun_eq_iff)
qed

lemma rotate_nobackups_effect:
  assumes "maxBackups r < 1" and "rotate_r r w = (None, r', w')"
  shows "trace w' = trace w @ (case file_r r of None \<Rightarrow> [] | Some f \<Rightarrow> [FClose f])
                       @ [Remove (path r), Create (path r)]"
    and "files w' = (files w)(path r \<mapsto> [])"
    and "r' = r\<lparr>file_r := Some (Handle (next_fd w) (path r)), size_r := 0\<rparr>"
proof -
  let ?r1 = "r\<lparr>file_r := None\<rparr>"
  from assms(2) obtain w1 w2 where C: "rotate_close r w = (None, ?r1, w1)"
    and F: "rotate_files ?r1 w1 = (None, w2)"
    and N: "rotate_create ?r1 w2 = (None, r', w')"
    by (rule rotate_success)
  have n1: "maxBackups ?r1 < 1" using assms(1) by simp
  note c = rotate_close_effect[OF C]
  note f = rotate_files_none[OF n1 F]
  note n = rotate_create_effect[OF N]
  have nf: "next_fd w2 = next_fd w" using c rotate_files_calls[OF F] by simp
  show "trace w' = trace w @ (case file_r r of None \<Rightarrow> [] | Some f \<Rightarrow> [FClose f])
                       @ [Remove (path r), Create (path r)]"
    using c f(1) n by simp
  show "files w' = (files w)(path r \<mapsto> [])" using c f(2) n by simp
  show "r' = r\<lparr>file_r := Some (Handle (next_fd w) (path r)), size_r := 0\<rparr>"
    using n nf by simp
qed

lemma chain_ok_numbered: "chain_ok p n fs \<Longrightarrow> numbered p n fs"
  unfolding chain_ok_def numbered_def
proof (intro allI impI)
  fix i assume a: "\<forall>i. 1 \<le> i \<and> fs (backup p i) \<noteq> None \<longrightarrow> i \<le> n \<and> fs (oldPath p i) \<noteq> None"
    and i: "1 \<le> i \<and> fs (backup p i) \<noteq> None"
  then have "i \<le> n \<and> fs (oldPath p i) \<noteq> None" by blast
  then show "i \<le> n \<and> (1 < i \<longrightarrow> fs (backup p (i - 1)) \<noteq> None)" by (auto simp: oldPath_def)
qed

lemma chain_okD:
  "chain_ok p n fs \<Longrightarrow> 1 \<le> i \<Longrightarrow> fs (backup p i) \<noteq> None \<Longrightarrow> i \<le> n \<and> fs (oldPath p i) \<noteq> None"
  unfolding chain_ok_def by blast

lemma chain_ok_cong:
  "\<forall>q. fs' q = None \<longleftrightarrow> fs q = None \<Longrightarrow> chain_ok p n fs' = chain_ok p n fs"
  by (simp add: chain_ok_def)

lemma chain_ok_add_live:
  assumes "chain_ok p n fs" "fs' p \<noteq> None" "\<forall>q. q \<noteq> p \<longrightarrow> fs' q = fs q"
  shows "chain_ok p n fs'"
  unfolding chain_ok_def
proof (intro allI impI)
  fix i assume i: "1 \<le> i \<and> fs' (backup p i) \<noteq> None"
  then have "fs (backup p i) \<noteq> None" using assms(3) by simp
  then have *: "i \<le> n \<and> fs (oldPath p i) \<noteq> None" using chain_okD[OF assms(1)] i by blast
  show "i \<le> n \<and> fs' (oldPath p i) \<noteq> None"
  proof (cases "i = 1")
    case True
    then show ?thesis using * assms(2) by (simp add: oldPath_def)
  next
    case False
    then show ?thesis using * assms(3) by (simp add: oldPath_def)
  qed
qed

lemma rotate_settled:
  assumes "settled (r, w)" "rotate_r r w = (None, r', w')"
  shows "settled (r', w')"
proof -
  let ?p = "path r" and ?n = "maxBackups r"
  have ch: "chain_ok ?p ?n (files w)" using assms(1) by (simp add: settled_def)
  have r': "path r' = ?p" "maxBackups r' = ?n" and live: "files w' ?p = Some []"
    using rotate_calls(4,5)[OF assms(2)] by simp_all
  have "chain_ok ?p ?n (files w')"
  proof (cases "?n < 1")
    case True
    from rotate_nobackups_effect(2)[OF True assms(2)]
    have same: "\<forall>q. q \<noteq> ?p \<longrightarrow> files w' q = files w q" by simp
    have "files w' ?p \<noteq> None" using live by simp
    from chain_ok_add_live[OF ch this same] show ?thesis .
  next
    case False
    then have n: "1 \<le> ?n" by simp
    note mv = rotate_backups_effect(2)[OF n assms(2)]
    note rest = rotate_backups_effect(4)[OF n assms(2)]
    show ?thesis
      unfolding chain_ok_def
    proof (intro allI impI)
      fix i assume i: "1 \<le> i \<and> files w' (backup ?p i) \<noteq> None"
      have le: "i \<le> ?n"
      proof (rule ccontr)
        assume "\<not> i \<le> ?n"
        then have "\<forall>j. 1 \<le> j \<and> j \<le> ?n \<longrightarrow> backup ?p i \<noteq> backup ?p j"
          using i by (auto simp: backup_eq_iff)
        then have "files w' (backup ?p i) = files w (backup ?p i)"
          using rest[rule_format, of "backup ?p i"] by simp
        then have "i \<le> ?n" using chain_okD[OF ch, of i] i by simp
        with \<open>\<not> i \<le> ?n\<close> show False by simp
      qed
      have src: "files w (oldPath ?p i) \<noteq> None" using mv[rule_format, of i] i le by simp
      have "files w' (oldPath ?p i) \<noteq> None"
      proof (cases "i = 1")
        case True
        then show ?thesis using live by (simp add: oldPath_def)
      next
        case False
        then have i1: "1 \<le> i - 1 \<and> i - 1 \<le> ?n" using i le by simp
        have "files w (backup ?p (i - 1)) \<noteq> None" using src False by (simp add: oldPath_def)
        then have "files w (oldPath ?p (i - 1)) \<noteq> None" using chain_okD[OF ch, of "i - 1"] i1 by simp
        then have "files w' (backup ?p (i - 1)) \<noteq> None" using mv[rule_format, of "i - 1"] i1 by simp
        then show ?thesis using False by (simp add: oldPath_def)
      qed
      with le show "i \<le> ?n \<and> files w' (oldPath ?p i) \<noteq> None" by simp
    qed
  qed
  then show ?thesis using r' live by (simp add: settled_def)
qed

lemma Close_settled:
  assumes "settled (r, w)" shows "settled (snd (Close r w))"
proof -
  obtain e r1 w1 where C: "Close r w = (e, r1, w1)" by (cases "Close r w")
  then have "r1 = r\<lparr>file_r := None\<rparr>" "files w1 = files w"
    by (auto simp: Close_def split: option.splits prod.splits dest!: file_Close_effect)
  then show ?thesis using assms C by (simp add: settled_def)
qed

lemma Write_open_settled:
  assumes "settled (r, w)" "Write_open r w = (res, r1, w1)"
  shows "settled (r1, w1)"
proof (cases "file_r r")
  case (Some f)
  then show ?thesis using assms by (simp add: Write_open_open)
next
  case None
  note o = Write_open_closed[OF None assms(2)]
  show ?thesis
  proof (cases res)
    case (Some e)
    then show ?thesis using o(2) assms(1) by (simp add: settled_def)
  next
    case N: None
    then have live: "files w1 (path r) \<noteq> None" and rest: "\<forall>q. q \<noteq> path r \<longrightarrow> files w1 q = files w q"
      using o(3) by simp_all
    have "chain_ok (path r) (maxBackups r) (files w)" using assms(1) by (simp add: settled_def)
    from chain_ok_add_live[OF this live rest] show ?thesis using o(4) live by (simp add: settled_def)
  qed
qed

lemma Write_file_settled:
  assumes "settled (r, w)" "Write_file r b w = (res, r', w')"
  shows "settled (r', w')"
proof -
  obtain n err where res: "res = (n, err)" by (cases res)
  note f = Write_file_effect[OF assms(2)[unfolded res]]
  have "chain_ok (path r) (maxBackups r) (files w') = chain_ok (path r) (maxBackups r) (files w)"
    using f(3) by (rule chain_ok_cong)
  moreover have "files w' (path r) \<noteq> None \<longleftrightarrow> files w (path r) \<noteq> None"
    using f(3)[rule_format, of "path r"] by simp
  ultimately show ?thesis using assms(1) f(2) by (simp add: settled_def del: not_None_eq)
qed

lemma apply_op_settled:
  assumes "settled s" "\<not> rotation_fails x s"
  shows "settled (apply_op x s)"
proof -
  obtain r w where s: "s = (r, w)" by (cases s)
  show ?thesis
  proof (cases x)
    case OpClose
    then show ?thesis using assms s Close_settled by simp
  next
    case OpRotate
    obtain e r' w' where R: "rotate_r r w = (e, r', w')" by (cases "rotate_r r w")
    then have "e = None" using assms(2) s OpRotate by simp
    with R rotate_settled[of r w r' w'] assms(1) s OpRotate show ?thesis by simp
  next
    case (OpWrite b)
    obtain e1 r1 w1 where O: "Write_open r w = (e1, r1, w1)" by (cases "Write_open r w")
    have s1: "settled (r1, w1)" using Write_open_settled[OF _ O] assms(1) s by simp
    show ?thesis
    proof (cases e1)
      case (Some e)
      then show ?thesis using O s1 s OpWrite by (simp add: Write_def)
    next
      case None
      obtain e2 r2 w2 where R: "Write_rotate r1 b w1 = (e2, r2, w2)" by (cases "Write_rotate r1 b w1")
      have e2: "e2 = None" using assms(2) s OpWrite O None R by simp
      have s2: "settled (r2, w2)"
      proof (cases "maxSize r1 < add64 (size_r r1) (int64 (int (length b)))")
        case True
        then have "rotate_r r1 w1 = (None, r2, w2)" using R e2 by (simp add: Write_rotate_def)
        from rotate_settled[OF s1 this] show ?thesis .
      next
        case False
        then show ?thesis using R s1 by (simp add: Write_rotate_def)
      qed
      obtain res r3 w3 where F: "Write_file r2 b w2 = (res, r3, w3)" by (cases "Write_file r2 b w2")
      from Write_file_settled[OF s2 F] have "settled (r3, w3)" .
      then show ?thesis using O None R e2 F s OpWrite by (simp add: Write_def Write_rest_def)
    qed
  qed
qed

lemma run_settled: "settled s \<Longrightarrow> rotations_complete xs s \<Longrightarrow> settled (run xs s)"
  by (induction xs arbitrary: s) (simp_all add: apply_op_settled)

lemma Write_config:
  assumes "Write r b w = (res, r', w')"
  shows "path r' = path r \<and> maxSize r' = maxSize r \<and> maxBackups r' = maxBackups r"
proof -
  obtain e1 r1 w1 where O: "Write_open r w = (e1, r1, w1)" by (cases "Write_open r w")
  have c1: "path r1 = path r \<and> maxSize r1 = maxSize r \<and> maxBackups r1 = maxBackups r"
  proof (cases "file_r r")
    case None
    from Write_open_closed(4)[OF None O] show ?thesis .
  next
    case (Some f)
    then show ?thesis using O by (simp add: Write_open_open)
  qed
  show ?thesis
  proof (cases e1)
    case (Some e)
    then show ?thesis using O c1 assms by (simp add: Write_def)
  next
    case None
    obtain e2 r2 w2 where R: "Write_rotate r1 b w1 = (e2, r2, w2)" by (cases "Write_rotate r1 b w1")
    have c2: "path r2 = path r1 \<and> maxSize r2 = maxSize r1 \<and> maxBackups r2 = maxBackups r1"
    proof (cases "maxSize r1 < add64 (size_r r1) (int64 (int (length b)))")
      case True
      then have "rotate_r r1 w1 = (e2, r2, w2)" using R by (simp add: Write_rotate_def)
      from rotate_calls(4)[OF this] show ?thesis .
    next
      case False
      then show ?thesis using R by (simp add: Write_rotate_def)
    qed
    show ?thesis
    proof (cases e2)
      case (Some e)
      then show ?thesis using O None R c1 c2 assms by (simp add: Write_def Write_rest_def)
    next
      case N2: None
      obtain n err where res: "res = (n, err)" by (cases res)
      have "Write_file r2 b w2 = ((n, err), r', w')"
        using O None R N2 assms res by (simp add: Write_def Write_rest_def)
      from Write_file_effect(2)[OF this] show ?thesis using c1 c2 by simp
    qed
  qed
qed

lemma apply_op_config:
  assumes "apply_op x (r, w) = (r', w')"
  shows "path r' = path r \<and> maxSize r' = maxSize r \<and> maxBackups r' = maxBackups r"
proof (cases x)
  case (OpWrite b)
  obtain res where "Write r b w = (res, r', w')" using assms OpWrite by (cases "Write r b w") simp
  from Write_config[OF this] show ?thesis .
next
  case OpRotate
  obtain res where "rotate_r r w = (res, r', w')" using assms OpRotate by (cases "rotate_r r w") simp
  from rotate_calls(4)[OF this] show ?thesis .
next
  case OpClose
  then show ?thesis using assms by (auto simp: Close_def split: option.splits prod.splits)
qed

lemma run_config:
  "run xs (r, w) = (r', w') \<Longrightarrow>
     path r' = path r \<and> maxSize r' = maxSize r \<and> maxBackups r' = maxBackups r"
proof (induction xs arbitrary: r w)
  case Nil
  then show ?case by simp
next
  case (Cons x xs)
  obtain r1 w1 where A: "apply_op x (r, w) = (r1, w1)" by (cases "apply_op x (r, w)")
  from Cons.prems A have "run xs (r1, w1) = (r', w')" by simp
  from Cons.IH[OF this] apply_op_config[OF A] show ?case by simp
qed

subsection \<open>The size after a write\<close>

lemma Write_success_size:
  assumes "Write r b w = ((n, None), r', w')" and "int (length b) \<le> maxSize r"
  shows "size_r r' \<le> maxSize r'" and "maxSize r' = maxSize r"
proof -
  show m: "maxSize r' = maxSize r" using Write_config[OF assms(1)] by simp
  obtain e1 r1 w1 where O: "Write_open r w = (e1, r1, w1)" by (cases "Write_open r w")
  have e1: "e1 = None" using assms(1) O by (cases e1) (simp_all add: Write_def)
  obtain e2 r2 w2 where R: "Write_rotate r1 b w1 = (e2, r2, w2)" by (cases "Write_rotate r1 b w1")
  have e2: "e2 = None" using assms(1) O e1 R by (cases e2) (simp_all add: Write_def Write_rest_def)
  have F: "Write_file r2 b w2 = ((n, None), r', w')"
    using assms(1) O e1 R e2 by (simp add: Write_def Write_rest_def)
  note f = Write_file_effect[OF F]
  have n: "n = length b" using f(5) by simp
  have m1: "maxSize r1 = maxSize r" using Write_open_success(2)[OF O[unfolded e1]] by simp
  have sz: "size_r r' = add64 (size_r r2) (int64 (int (length b)))" using f(2) n by simp
  have "size_r r' \<le> maxSize r"
  proof (cases "maxSize r1 < add64 (size_r r1) (int64 (int (length b)))")
    case False
    then have "r2 = r1" using R by (simp add: Write_rotate_def)
    then show ?thesis using False sz m1 by simp
  next
    case True
    then have "rotate_r r1 w1 = (None, r2, w2)" using R e2 by (simp add: Write_rotate_def)
    from rotate_calls(5)[OF this] have "size_r r2 = 0" by simp
    then have "size_r r' = int64 (int64 (int (length b)))" using sz by (simp add: add64_def)
    moreover have "int64 (int64 (int (length b))) \<le> maxSize r"
    proof (cases "int (length b) < 2 ^ 63")
      case True
      then have "int64 (int (length b)) = int (length b)" by (simp add: int64_id)
      then show ?thesis using True assms(2) by (simp add: int64_id)
    next
      case False
      then show ?thesis using assms(2) int64_range(2)[of "int64 (int (length b))"] by simp
    qed
    ultimately show ?thesis by simp
  qed
  then show "size_r r' \<le> maxSize r'" using m by simp
qed

lemma writes_size:
  "size_r r \<le> maxSize r \<Longrightarrow> \<forall>b\<in>set bs. int (length b) \<le> maxSize r \<Longrightarrow>
     writes bs r w = Some (r', w') \<Longrightarrow> size_r r' \<le> maxSize r' \<and> maxSize r' = maxSize r"
proof (induction bs arbitrary: r w)
  case Nil
  then show ?case by simp
next
  case (Cons b bs)
  obtain n e r1 w1 where W: "Write r b w = ((n, e), r1, w1)" by (cases "Write r b w") auto
  have e: "e = None" using Cons.prems(3) W by (cases e) simp_all
  have len: "int (length b) \<le> maxSize r" using Cons.prems(2) by simp
  note s = Write_success_size[OF W[unfolded e] len]
  have "writes bs r1 w1 = Some (r', w')" using Cons.prems(3) W e by simp
  moreover have "\<forall>b\<in>set bs. int (length b) \<le> maxSize r1" using Cons.prems(2) s(2) by simp
  ultimately show ?case using Cons.IH[of r1 w1] s by simp
qed

subsection \<open>Rotation without faults\<close>

text \<open>With no fault in the script and no file to close, a rotation goes through whatever is on disk.\<close>

lemma shift_backups_no_fault:
  "faults w = [] \<Longrightarrow> fst (shift_backups p i w) = None \<and> faults (snd (shift_backups p i w)) = []"
proof (induction "nat i" arbitrary: i w)
  case 0
  then show ?case by (simp add: shift_backups_stop)
next
  case (Suc k)
  then have pos: "0 < i" by simp
  have k: "k = nat (i - 1)" using Suc.hyps(2) by simp
  obtain r1 w1 where R: "os_Rename (oldPath p i) (backup p i) w = (r1, w1)"
    by (cases "os_Rename (oldPath p i) (backup p i) w")
  have ok: "r1 = None \<or> r1 = Some ErrNotExist" and f1: "faults w1 = []"
    using R Suc.prems by (auto simp: os_Rename_def enter_def split: option.splits)
  have "shift_backups p i w = shift_backups p (i - 1) w1"
    using pos R ok by (subst shift_backups.simps) (auto simp: IsNotExist_def)
  then show ?case using Suc.hyps(1)[OF k f1] by simp
qed

lemma rotate_no_fault:
  assumes "faults w = []" "file_r r = None"
  shows "fst (rotate_r r w) = None"
proof -
  have C: "rotate_close r w = (None, r, w)" using assms(2) by (simp add: rotate_close_def)
  have F: "fst (rotate_files r w) = None \<and> faults (snd (rotate_files r w)) = []"
  proof (cases "maxBackups r < 1")
    case True
    then show ?thesis using assms(1)
      by (auto simp: rotate_files_def os_Remove_def enter_def IsNotExist_def split: option.splits)
  next
    case False
    obtain r0 w0 where R: "os_Remove (backup (path r) (maxBackups r)) w = (r0, w0)"
      by (cases "os_Remove (backup (path r) (maxBackups r)) w")
    have ok: "r0 = None \<or> r0 = Some ErrNotExist" and f0: "faults w0 = []"
      using R assms(1) by (auto simp: os_Remove_def enter_def split: option.splits)
    have "rotate_files r w = shift_backups (path r) (maxBackups r) w0"
      using False R ok by (auto simp: rotate_files_def IsNotExist_def)
    then show ?thesis using shift_backups_no_fault[OF f0] by simp
  qed
  obtain w2 where F2: "rotate_files r w = (None, w2)" and f2: "faults w2 = []"
    using F by (cases "rotate_files r w") auto
  have "fst (rotate_create r w2) = None"
    using f2 by (simp add: rotate_create_def os_Create_def enter_def)
  then show ?thesis using C F2 by (simp add: rotate_r_def)
qed

subsection \<open>The age of the backups\<close>

lemma os_Rename_begun:
  "os_Rename a b w = (res, w') \<Longrightarrow>
     (case res of
        None \<Rightarrow> begun w' = ((begun w)(a := None))(b := begun w a)
      | Some e \<Rightarrow> begun w' = begun w)"
  by (auto simp: os_Rename_def enter_def split: prod.splits fault.splits option.splits list.splits)

lemma os_Remove_begun:
  "os_Remove a w = (res, w') \<Longrightarrow>
     (case res of None \<Rightarrow> begun w' = (begun w)(a := None) | Some e \<Rightarrow> begun w' = begun w)"
  by (auto simp: os_Remove_def enter_def split: prod.splits fault.splits option.splits list.splits)

lemma os_Create_begun:
  "os_Create a w = (res, w') \<Longrightarrow>
     (case res of
        Inr f \<Rightarrow> begun w' = (begun w)(a \<mapsto> int (length (trace w')))
      | Inl e \<Rightarrow> begun w' = begun w)"
  by (auto simp: os_Create_def enter_def split: prod.splits fault.splits option.splits list.splits)

lemma os_OpenFile_begun: "os_OpenFile a w = (res, w') \<Longrightarrow> begun w' = begun w"
  by (auto simp: os_OpenFile_def enter_def split: prod.splits fault.splits option.splits list.splits)

lemma os_MkdirAllDir_begun: "os_MkdirAllDir a w = (res, w') \<Longrightarrow> begun w' = begun w"
  by (auto simp: os_MkdirAllDir_def enter_def split: prod.splits fault.splits option.splits list.splits)

lemma file_Close_begun: "file_Close f w = (res, w') \<Longrightarrow> begun w' = begun w"
  by (auto simp: file_Close_def enter_def split: prod.splits fault.splits option.splits list.splits if_splits)

lemma file_Write_begun: "file_Write f b w = (res, w') \<Longrightarrow> begun w' = begun w"
  by (auto simp: file_Write_def enter_def split: prod.splits fault.splits option.splits list.splits if_splits)

lemma trackedD: "tracked w \<Longrightarrow> begun w q = None \<longleftrightarrow> files w q = None"
  by (simp add: tracked_def)


lemma os_Stat_begun: "os_Stat a w = (res, w') \<Longrightarrow> begun w' = begun w"
  by (auto simp: os_Stat_def enter_def split: prod.splits fault.splits option.splits list.splits)

lemma slot_eq_iff: "0 \<le> a \<Longrightarrow> 0 \<le> b \<Longrightarrow> slot p a = slot p b \<longleftrightarrow> a = b"
  by (auto simp: slot_def backup_eq_iff)

lemma oldPath_slot: "oldPath p i = slot p (i - 1)"
  by (simp add: oldPath_def slot_def)

lemma backup_slot: "1 \<le> i \<Longrightarrow> backup p i = slot p i"
  by (simp add: slot_def)

lemma agedD:
  assumes "aged p n w"
  shows "tracked w"
    and "begun w q = Some t \<Longrightarrow> t \<le> int (length (trace w))"
    and "1 \<le> i \<Longrightarrow> files w (backup p i) \<noteq> None \<Longrightarrow> i \<le> n"
    and "0 \<le> i \<Longrightarrow> i < j \<Longrightarrow> begun w (slot p i) = Some s \<Longrightarrow> begun w (slot p j) = Some t' \<Longrightarrow> t' < s"
proof -
  show "tracked w" using assms by (simp add: aged_def)
  show "begun w q = Some t \<Longrightarrow> t \<le> int (length (trace w))" using assms unfolding aged_def by blast
  show "1 \<le> i \<Longrightarrow> files w (backup p i) \<noteq> None \<Longrightarrow> i \<le> n"
    using assms unfolding aged_def in_range_def by blast
  show "0 \<le> i \<Longrightarrow> i < j \<Longrightarrow> begun w (slot p i) = Some s \<Longrightarrow> begun w (slot p j) = Some t' \<Longrightarrow> t' < s"
    using assms unfolding aged_def by blast
qed

lemma agedI:
  assumes "tracked w"
    and "\<And>q t. begun w q = Some t \<Longrightarrow> t \<le> int (length (trace w))"
    and "\<And>i. 1 \<le> i \<Longrightarrow> files w (backup p i) \<noteq> None \<Longrightarrow> i \<le> n"
    and "\<And>i j s t. 0 \<le> i \<Longrightarrow> i < j \<Longrightarrow> begun w (slot p i) = Some s \<Longrightarrow> begun w (slot p j) = Some t \<Longrightarrow> t < s"
  shows "aged p n w"
  using assms unfolding aged_def in_range_def by blast

text \<open>A call that changes neither the files that exist nor the times.\<close>

lemma aged_frame:
  assumes "aged p n w" "begun w' = begun w" "\<forall>q. files w' q = None \<longleftrightarrow> files w q = None"
    and "length (trace w) \<le> length (trace w')"
  shows "aged p n w'"
proof (rule agedI)
  show "tracked w'" using agedD(1)[OF assms(1)] assms(2,3) by (simp add: tracked_def)
next
  fix q t assume "begun w' q = Some t"
  then have "t \<le> int (length (trace w))" using agedD(2)[OF assms(1)] assms(2) by simp
  then show "t \<le> int (length (trace w'))" using assms(4) by simp
next
  fix i assume "1 \<le> i" "files w' (backup p i) \<noteq> None"
  then show "i \<le> n" using agedD(3)[OF assms(1), of i] assms(3) by simp
next
  fix i j s t assume "0 \<le> i" "i < j" "begun w' (slot p i) = Some s" "begun w' (slot p j) = Some t"
  then show "t < s" using agedD(4)[OF assms(1)] assms(2) by simp
qed

text \<open>A file is removed.\<close>

lemma aged_remove:
  assumes "aged p n w" "begun w' = (begun w)(q := None)" "files w' = (files w)(q := None)"
    and "length (trace w) \<le> length (trace w')"
  shows "aged p n w'"
proof (rule agedI)
  show "tracked w'" using trackedD[OF agedD(1)[OF assms(1)]] assms(2,3) by (simp add: tracked_def)
next
  fix x t assume "begun w' x = Some t"
  then have "begun w x = Some t" using assms(2) by (simp split: if_splits)
  then have "t \<le> int (length (trace w))" using agedD(2)[OF assms(1)] by simp
  then show "t \<le> int (length (trace w'))" using assms(4) by simp
next
  fix i assume "1 \<le> i" "files w' (backup p i) \<noteq> None"
  then have "1 \<le> i" "files w (backup p i) \<noteq> None" using assms(3) by (simp_all split: if_splits)
  then show "i \<le> n" using agedD(3)[OF assms(1)] by simp
next
  fix i j s t assume "0 \<le> i" "i < j" and "begun w' (slot p i) = Some s" "begun w' (slot p j) = Some t"
  then have "0 \<le> i" "i < j" "begun w (slot p i) = Some s" "begun w (slot p j) = Some t"
    using assms(2) by (simp_all split: if_splits)
  then show "t < s" using agedD(4)[OF assms(1)] by simp
qed

text \<open>The file in slot \<open>i - 1\<close> moves to the empty slot \<open>i\<close>.\<close>

lemma aged_rename:
  assumes "aged p n w" "1 \<le> i" "i \<le> n" "files w (backup p i) = None"
    and "begun w' = ((begun w)(oldPath p i := None))(backup p i := begun w (oldPath p i))"
    and "files w' = ((files w)(oldPath p i := None))(backup p i := files w (oldPath p i))"
    and "length (trace w) \<le> length (trace w')"
  shows "aged p n w'"
proof (rule agedI)
  note tw = trackedD[OF agedD(1)[OF assms(1)]]
  have neq: "oldPath p i \<noteq> backup p i" using assms(2) by (auto simp: oldPath_def backup_eq_iff)
  have at: "\<And>c. 0 \<le> c \<Longrightarrow> begun w' (slot p c) =
      (if c = i then begun w (slot p (i - 1)) else if c = i - 1 then None else begun w (slot p c))"
  proof -
    fix c :: int assume c: "0 \<le> c"
    have a: "slot p c = backup p i \<longleftrightarrow> c = i"
      using slot_eq_iff[of c i p] c assms(2) by (simp add: backup_slot)
    have b: "slot p c = oldPath p i \<longleftrightarrow> c = i - 1"
      using slot_eq_iff[of c "i - 1" p] c assms(2) by (simp add: oldPath_slot)
    show "begun w' (slot p c) =
      (if c = i then begun w (slot p (i - 1)) else if c = i - 1 then None else begun w (slot p c))"
      unfolding assms(5) using a b by (simp add: oldPath_slot)
  qed
  show "tracked w'" unfolding tracked_def assms(5,6) using tw neq by simp
  show "\<And>q t. begun w' q = Some t \<Longrightarrow> t \<le> int (length (trace w'))"
  proof -
    fix q t assume "begun w' q = Some t"
    then have "\<exists>q'. begun w q' = Some t" unfolding assms(5) by (auto split: if_splits)
    then obtain q' where "begun w q' = Some t" by blast
    from agedD(2)[OF assms(1) this] assms(7) show "t \<le> int (length (trace w'))" by simp
  qed
  show "\<And>k. 1 \<le> k \<Longrightarrow> files w' (backup p k) \<noteq> None \<Longrightarrow> k \<le> n"
  proof -
    fix k assume k: "1 \<le> k" "files w' (backup p k) \<noteq> None"
    show "k \<le> n"
    proof (cases "k = i")
      case True
      then show ?thesis using assms(3) by simp
    next
      case False
      then have "backup p k \<noteq> backup p i" using k(1) assms(2) by (simp add: backup_eq_iff)
      then have "files w (backup p k) \<noteq> None" using k(2) unfolding assms(6) by (simp split: if_splits)
      then show ?thesis using agedD(3)[OF assms(1) k(1)] by simp
    qed
  qed
  show "\<And>a b s t. 0 \<le> a \<Longrightarrow> a < b \<Longrightarrow> begun w' (slot p a) = Some s \<Longrightarrow>
          begun w' (slot p b) = Some t \<Longrightarrow> t < s"
  proof -
    fix a b s t assume ab: "0 \<le> a" "a < b" and s: "begun w' (slot p a) = Some s"
      and t: "begun w' (slot p b) = Some t"
    have b0: "0 \<le> b" using ab by simp
    note sa = s[unfolded at[OF ab(1)]] and tb = t[unfolded at[OF b0]]
    show "t < s"
    proof (cases "a = i")
      case True
      then have "begun w (slot p (i - 1)) = Some s" using sa by simp
      moreover have "begun w (slot p b) = Some t" using tb True ab by (simp split: if_splits)
      ultimately show ?thesis using agedD(4)[OF assms(1), of "i - 1" b] assms(2) True ab by simp
    next
      case False
      then have a1: "a \<noteq> i - 1" and s0: "begun w (slot p a) = Some s"
        using sa by (auto split: if_splits)
      show ?thesis
      proof (cases "b = i")
        case True
        then have "begun w (slot p (i - 1)) = Some t" using tb by simp
        moreover have "a < i - 1" using ab True a1 by simp
        ultimately show ?thesis using agedD(4)[OF assms(1) ab(1) _ s0] by simp
      next
        case F2: False
        then have "begun w (slot p b) = Some t" using tb by (auto split: if_splits)
        then show ?thesis using agedD(4)[OF assms(1) ab s0] by simp
      qed
    qed
  qed
qed

text \<open>The live file is created or emptied.\<close>

lemma aged_create:
  assumes "aged p n w" "begun w' = (begun w)(p \<mapsto> int (length (trace w')))"
    and "files w' = (files w)(p \<mapsto> [])" and "length (trace w) < length (trace w')"
  shows "aged p n w'"
proof (rule agedI)
  show "tracked w'" using trackedD[OF agedD(1)[OF assms(1)]] assms(2,3) by (simp add: tracked_def)
next
  fix q t assume q: "begun w' q = Some t"
  show "t \<le> int (length (trace w'))"
  proof (cases "q = p")
    case True
    then show ?thesis using q assms(2) by simp
  next
    case False
    then have "begun w q = Some t" using q assms(2) by simp
    from agedD(2)[OF assms(1) this] assms(4) show ?thesis by simp
  qed
next
  fix i assume "1 \<le> i" "files w' (backup p i) \<noteq> None"
  then show "i \<le> n" using agedD(3)[OF assms(1), of i] assms(3) by simp
next
  fix i j s t assume ij: "0 \<le> i" "i < j" and s: "begun w' (slot p i) = Some s"
    and t: "begun w' (slot p j) = Some t"
  have "slot p j \<noteq> p" using ij by (simp add: slot_def)
  then have t0: "begun w (slot p j) = Some t" using t assms(2) by simp
  show "t < s"
  proof (cases "i = 0")
    case True
    then have "s = int (length (trace w'))" using s assms(2) by (simp add: slot_def)
    then show ?thesis using agedD(2)[OF assms(1) t0] assms(4) by simp
  next
    case False
    then have "slot p i \<noteq> p" by (simp add: slot_def)
    then have "begun w (slot p i) = Some s" using s assms(2) by simp
    from agedD(4)[OF assms(1) ij this t0] show ?thesis .
  qed
qed

lemma os_Stat_aged: "os_Stat a w = (res, w') \<Longrightarrow> aged p n w \<Longrightarrow> aged p n w'"
  using os_Stat_effect[of a w res w'] os_Stat_begun[of a w res w']
  by (intro aged_frame[of p n w w']) simp_all

lemma os_MkdirAllDir_aged: "os_MkdirAllDir a w = (res, w') \<Longrightarrow> aged p n w \<Longrightarrow> aged p n w'"
  using os_MkdirAllDir_effect[of a w res w'] os_MkdirAllDir_begun[of a w res w']
  by (intro aged_frame[of p n w w']) simp_all

lemma os_OpenFile_aged: "os_OpenFile a w = (res, w') \<Longrightarrow> aged p n w \<Longrightarrow> aged p n w'"
  using os_OpenFile_effect[of a w res w'] os_OpenFile_begun[of a w res w']
  by (intro aged_frame[of p n w w']) simp_all

lemma file_Close_aged: "file_Close f w = (res, w') \<Longrightarrow> aged p n w \<Longrightarrow> aged p n w'"
  using file_Close_effect[of f w res w'] file_Close_begun[of f w res w']
  by (intro aged_frame[of p n w w']) simp_all

lemma file_Write_aged:
  assumes "file_Write f b w = (res, w')" "aged p n w"
  shows "aged p n w'"
proof -
  obtain k err where res: "res = (k, err)" by (cases res)
  note e = file_Write_effect[OF assms(1)[unfolded res]]
  have "\<forall>q. files w' q = None \<longleftrightarrow> files w q = None" using e by simp
  moreover have "length (trace w) \<le> length (trace w')" using e by simp
  ultimately show ?thesis using aged_frame[OF assms(2) file_Write_begun[OF assms(1)]] by simp
qed

lemma os_Remove_aged:
  assumes "os_Remove q w = (res, w')" "aged p n w"
  shows "aged p n w'"
proof -
  note e = os_Remove_effect[OF assms(1)] and b = os_Remove_begun[OF assms(1)]
  have len: "length (trace w) \<le> length (trace w')" using e by simp
  show ?thesis
  proof (cases res)
    case None
    then show ?thesis using aged_remove[OF assms(2) _ _ len, of q] e b by simp
  next
    case (Some err)
    then show ?thesis using aged_frame[OF assms(2) _ _ len] e b by simp
  qed
qed

lemma os_Rename_aged:
  assumes "os_Rename (oldPath p i) (backup p i) w = (res, w')" "aged p n w"
    and "1 \<le> i" "i \<le> n" "files w (backup p i) = None"
  shows "aged p n w'"
proof -
  note e = os_Rename_effect[OF assms(1)] and b = os_Rename_begun[OF assms(1)]
  have len: "length (trace w) \<le> length (trace w')" using e by simp
  show ?thesis
  proof (cases res)
    case None
    then show ?thesis using aged_rename[OF assms(2,3,4,5) _ _ len] e b by simp
  next
    case (Some err)
    then show ?thesis using aged_frame[OF assms(2) _ _ len] e b by simp
  qed
qed

lemma os_Create_aged:
  assumes "os_Create p w = (res, w')" "aged p n w"
  shows "aged p n w'"
proof -
  note e = os_Create_effect[OF assms(1)] and b = os_Create_begun[OF assms(1)]
  have len: "length (trace w) < length (trace w')" using e by simp
  show ?thesis
  proof (cases res)
    case (Inr f)
    then show ?thesis using aged_create[OF assms(2) _ _ len] e b by simp
  next
    case (Inl err)
    then show ?thesis using aged_frame[OF assms(2), of w'] e b len by simp
  qed
qed

text \<open>The loop, however it ends.\<close>

lemma shift_backups_aged:
  "shift_backups p i w = (res, w') \<Longrightarrow> aged p n w \<Longrightarrow> i \<le> n \<Longrightarrow>
     (0 < i \<longrightarrow> files w (backup p i) = None) \<Longrightarrow> aged p n w'"
proof (induction "nat i" arbitrary: i w)
  case 0
  then show ?case by (simp add: shift_backups_stop)
next
  case (Suc k)
  then have pos: "0 < i" by simp
  have k: "k = nat (i - 1)" using Suc.hyps(2) by simp
  have vac: "files w (backup p i) = None" using Suc.prems(4) pos by simp
  from Suc.prems(1) pos show ?case
  proof (elim shift_backups_step)
    fix r1 w1
    assume R: "os_Rename (oldPath p i) (backup p i) w = (r1, w1)"
      and D: "(\<exists>e. r1 = Some e \<and> \<not> IsNotExist e \<and> res = Some (Wrap e) \<and> w' = w1) \<or>
         ((r1 = None \<or> (\<exists>e. r1 = Some e \<and> IsNotExist e)) \<and> shift_backups p (i - 1) w1 = (res, w'))"
    have a1: "aged p n w1" using os_Rename_aged[OF R Suc.prems(2) _ Suc.prems(3) vac] pos by simp
    from D show ?thesis
    proof
      assume "\<exists>e. r1 = Some e \<and> \<not> IsNotExist e \<and> res = Some (Wrap e) \<and> w' = w1"
      then show ?thesis using a1 by auto
    next
      assume c: "(r1 = None \<or> (\<exists>e. r1 = Some e \<and> IsNotExist e)) \<and> shift_backups p (i - 1) w1 = (res, w')"
      have neq: "oldPath p i \<noteq> backup p i" using pos by (auto simp: oldPath_def backup_eq_iff)
      have "files w1 (oldPath p i) = None"
        using os_Rename_effect[OF R] c neq by (auto split: option.splits)
      then have vac1: "0 < i - 1 \<longrightarrow> files w1 (backup p (i - 1)) = None"
        by (auto simp: oldPath_def split: if_splits)
      have "i - 1 \<le> n" using Suc.prems(3) by simp
      from Suc.hyps(1)[OF k _ a1 this vac1] c show ?thesis by simp
    qed
  qed
qed

lemma rotate_files_aged:
  assumes "rotate_files r w = (res, w')" "aged (path r) (maxBackups r) w"
  shows "aged (path r) (maxBackups r) w'"
proof (cases "maxBackups r < 1")
  case True
  obtain r0 w0 where R: "os_Remove (path r) w = (r0, w0)" by (cases "os_Remove (path r) w")
  then have "w' = w0" using assms(1) True by (auto simp: rotate_files_def split: option.splits if_splits)
  then show ?thesis using os_Remove_aged[OF R assms(2)] by simp
next
  case False
  let ?p = "path r" and ?n = "maxBackups r"
  obtain r0 w0 where R: "os_Remove (backup ?p ?n) w = (r0, w0)"
    by (cases "os_Remove (backup ?p ?n) w")
  have a0: "aged ?p ?n w0" using os_Remove_aged[OF R assms(2)] .
  from assms(1) False R
  have "w' = w0 \<or> ((r0 = None \<or> (\<exists>e. r0 = Some e \<and> IsNotExist e)) \<and>
          shift_backups ?p ?n w0 = (res, w'))"
    by (auto simp: rotate_files_def split: option.splits if_splits)
  then show ?thesis
  proof
    assume "w' = w0" then show ?thesis using a0 by simp
  next
    assume c: "(r0 = None \<or> (\<exists>e. r0 = Some e \<and> IsNotExist e)) \<and>
          shift_backups ?p ?n w0 = (res, w')"
    have "files w0 (backup ?p ?n) = None"
      using os_Remove_effect[OF R] c by (auto split: option.splits)
    then show ?thesis using shift_backups_aged[of ?p ?n w0 res w' ?n] c a0 by simp
  qed
qed

lemma rotate_aged:
  assumes "rotate_r r w = (res, r', w')" "aged (path r) (maxBackups r) w"
  shows "aged (path r) (maxBackups r) w'"
proof -
  obtain e1 r1 w1 where C: "rotate_close r w = (e1, r1, w1)" by (cases "rotate_close r w")
  obtain e2 w2 where F: "rotate_files r1 w1 = (e2, w2)" by (cases "rotate_files r1 w1")
  obtain e3 r3 w3 where N: "rotate_create r1 w2 = (e3, r3, w3)" by (cases "rotate_create r1 w2")
  have r1: "r1 = r\<lparr>file_r := None\<rparr>" using rotate_close_effect[OF C] by simp
  have a1: "aged (path r) (maxBackups r) w1"
  proof (cases "file_r r")
    case None
    then show ?thesis using C assms(2) by (simp add: rotate_close_def)
  next
    case (Some f)
    obtain cres wc where FC: "file_Close f w = (cres, wc)" by (cases "file_Close f w")
    then have "w1 = wc" using C Some by (auto simp: rotate_close_def split: option.splits)
    then show ?thesis using file_Close_aged[OF FC assms(2)] by simp
  qed
  have a2: "aged (path r) (maxBackups r) w2" using rotate_files_aged[OF F] a1 r1 by simp
  have a3: "aged (path r) (maxBackups r) w3"
  proof -
    obtain cres wc where CR: "os_Create (path r) w2 = (cres, wc)" by (cases "os_Create (path r) w2")
    then have "w3 = wc" using N r1 by (auto simp: rotate_create_def split: sum.splits)
    then show ?thesis using os_Create_aged[OF CR a2] by simp
  qed
  have "w' = w1 \<or> w' = w2 \<or> w' = w3"
    using assms(1) C F N by (auto simp: rotate_r_def split: option.splits)
  then show ?thesis using a1 a2 a3 by auto
qed

lemma Write_open_aged:
  assumes "Write_open r w = (res, r1, w1)" "aged (path r) (maxBackups r) w"
  shows "aged (path r) (maxBackups r) w1"
proof (cases "file_r r")
  case (Some f)
  then show ?thesis using assms by (simp add: Write_open_open)
next
  case None
  obtain sres w0 where S: "os_Stat (path r) w = (sres, w0)" by (cases "os_Stat (path r) w")
  obtain mres wm where M: "os_MkdirAllDir (path r) w0 = (mres, wm)" by (cases "os_MkdirAllDir (path r) w0")
  obtain cres wc where C: "os_Create (path r) wm = (cres, wc)" by (cases "os_Create (path r) wm")
  obtain ores wo where O: "os_OpenFile (path r) w0 = (ores, wo)" by (cases "os_OpenFile (path r) w0")
  have a0: "aged (path r) (maxBackups r) w0" using os_Stat_aged[OF S assms(2)] .
  have am: "aged (path r) (maxBackups r) wm" using os_MkdirAllDir_aged[OF M a0] .
  have ac: "aged (path r) (maxBackups r) wc" using os_Create_aged[OF C am] .
  have ao: "aged (path r) (maxBackups r) wo" using os_OpenFile_aged[OF O a0] .
  have "w1 = w0 \<or> w1 = wm \<or> w1 = wo \<or> w1 = wc"
    using assms(1) None S M C O by (auto simp: Write_open_def split: sum.splits option.splits if_splits)
  then show ?thesis using a0 am ac ao by auto
qed

lemma Write_file_aged:
  assumes "Write_file r b w = (res, r', w')" "aged p n w"
  shows "aged p n w'"
proof (cases "file_r r")
  case None
  then have "w' = w" using assms(1) by (auto simp: Write_file_def)
  then show ?thesis using assms(2) by simp
next
  case (Some f)
  obtain fres wf where FW: "file_Write f b w = (fres, wf)" by (cases "file_Write f b w")
  then have "w' = wf" using assms(1) Some by (auto simp: Write_file_def split: prod.splits)
  then show ?thesis using file_Write_aged[OF FW assms(2)] by simp
qed

lemma Close_aged:
  assumes "Close r w = (res, r', w')" "aged p n w"
  shows "aged p n w'"
proof (cases "file_r r")
  case None
  then have "w' = w" using assms(1) by (simp add: Close_def)
  then show ?thesis using assms(2) by simp
next
  case (Some f)
  obtain cres wc where FC: "file_Close f w = (cres, wc)" by (cases "file_Close f w")
  then have "w' = wc" using assms(1) Some by (auto simp: Close_def split: option.splits)
  then show ?thesis using file_Close_aged[OF FC assms(2)] by simp
qed

lemma Write_aged:
  assumes "Write r b w = (res, r', w')" "aged (path r) (maxBackups r) w"
  shows "aged (path r) (maxBackups r) w'"
proof -
  obtain e1 r1 w1 where O: "Write_open r w = (e1, r1, w1)" by (cases "Write_open r w")
  have a1: "aged (path r) (maxBackups r) w1" using Write_open_aged[OF O assms(2)] .
  show ?thesis
  proof (cases e1)
    case (Some e)
    then have "w' = w1" using O assms(1) by (simp add: Write_def)
    then show ?thesis using a1 by simp
  next
    case None
    have c1: "path r1 = path r" "maxBackups r1 = maxBackups r"
      using Write_open_success(2)[OF O[unfolded None]] by simp_all
    obtain e2 r2 w2 where R: "Write_rotate r1 b w1 = (e2, r2, w2)" by (cases "Write_rotate r1 b w1")
    have a2: "aged (path r) (maxBackups r) w2"
    proof (cases "maxSize r1 < add64 (size_r r1) (int64 (int (length b)))")
      case True
      then have "rotate_r r1 w1 = (e2, r2, w2)" using R by (simp add: Write_rotate_def)
      from rotate_aged[OF this] a1 c1 show ?thesis by simp
    next
      case False
      then show ?thesis using R a1 by (simp add: Write_rotate_def)
    qed
    show ?thesis
    proof (cases e2)
      case (Some e)
      then have "w' = w2" using O None R assms(1) by (simp add: Write_def Write_rest_def)
      then show ?thesis using a2 by simp
    next
      case N2: None
      have "Write_file r2 b w2 = (res, r', w')"
        using O None R N2 assms(1) by (simp add: Write_def Write_rest_def)
      from Write_file_aged[OF this a2] show ?thesis .
    qed
  qed
qed

lemma apply_op_aged:
  assumes "apply_op x (r, w) = (r', w')" "aged (path r) (maxBackups r) w"
  shows "aged (path r) (maxBackups r) w'"
proof (cases x)
  case (OpWrite b)
  obtain res where "Write r b w = (res, r', w')" using assms(1) OpWrite by (cases "Write r b w") simp
  from Write_aged[OF this assms(2)] show ?thesis .
next
  case OpRotate
  obtain res where "rotate_r r w = (res, r', w')" using assms(1) OpRotate by (cases "rotate_r r w") simp
  from rotate_aged[OF this assms(2)] show ?thesis .
next
  case OpClose
  obtain res where "Close r w = (res, r', w')" using assms(1) OpClose by (cases "Close r w") simp
  from Close_aged[OF this assms(2)] show ?thesis .
qed

lemma run_aged:
  "run xs (r, w) = (r', w') \<Longrightarrow> aged (path r) (maxBackups r) w \<Longrightarrow> aged (path r) (maxBackups r) w'"
proof (induction xs arbitrary: r w)
  case Nil
  then show ?case by simp
next
  case (Cons x xs)
  obtain r1 w1 where A: "apply_op x (r, w) = (r1, w1)" by (cases "apply_op x (r, w)")
  have c: "path r1 = path r" "maxBackups r1 = maxBackups r" using apply_op_config[OF A] by simp_all
  have a1: "aged (path r1) (maxBackups r1) w1" using apply_op_aged[OF A Cons.prems(2)] c by simp
  have "run xs (r1, w1) = (r', w')" using Cons.prems(1) A by simp
  from Cons.IH[OF this a1] c show ?case by simp
qed

lemma aged_newest_first:
  assumes "aged p n w"
  shows "newest_first p w"
  unfolding newest_first_def
proof (intro allI impI)
  fix i j :: int
  assume h: "1 \<le> i \<and> i < j \<and> files w (backup p i) \<noteq> None \<and> files w (backup p j) \<noteq> None"
  then obtain s t where st: "begun w (backup p i) = Some s" "begun w (backup p j) = Some t"
    using trackedD[OF agedD(1)[OF assms]] by (metis option.exhaust)
  have "begun w (slot p i) = Some s" "begun w (slot p j) = Some t"
    using st h by (simp_all add: slot_def)
  from agedD(4)[OF assms _ _ this] h have "t < s" by simp
  with st show "\<exists>s t. begun w (backup p i) = Some s \<and> begun w (backup p j) = Some t \<and> t < s"
    by blast
qed

subsection \<open>Running the code on the examples\<close>

lemma result_parts: "fst x = a \<Longrightarrow> x = (a, fst (snd x), snd (snd x))"
  by (cases x) auto

lemma result_pair: "fst x = a \<Longrightarrow> x = (a, snd x)"
  by (cases x) auto

lemma backup_log [simp]:
  "backup ''log'' 1 = ''log-1''" "backup ''log'' 2 = ''log-2''" "backup ''log'' 3 = ''log-3''"
  by (simp_all add: backup_def fmt_d_def itoa.simps digit_def)

lemmas run_defs = Write_def Write_open_def Write_rest_def Write_rotate_def Write_file_def
  rotate_r_def rotate_close_def rotate_files_def rotate_create_def Close_def os_defs
  shift_backups.simps oldPath_def IsNotExist_def add64_def int64_def append_to_def
  ex_rotator_def ex_opened_def ex_disk_def ex_sixth_call_fails_def ex_old_backup_def
  ex_next_call_fails_def

lemma backup_log_eq:
  assumes "1 \<le> i"
  shows "backup ''log'' i \<noteq> ''log''" and "backup ''log'' i = ''log-1'' \<longleftrightarrow> i = 1"
    and "backup ''log'' i = ''log-2'' \<longleftrightarrow> i = 2"
proof -
  show "backup ''log'' i \<noteq> ''log''" by simp
  show "backup ''log'' i = ''log-1'' \<longleftrightarrow> i = 1"
    using assms backup_eq_iff[of i 1 "''log''"] by simp
  show "backup ''log'' i = ''log-2'' \<longleftrightarrow> i = 2"
    using assms backup_eq_iff[of i 2 "''log''"] by simp
qed

lemma ex_sixth_call_fails_files:
  "files ex_sixth_call_fails = [''log-1'' \<mapsto> ''b'', ''log'' \<mapsto> ''aaaa'']"
  "begun ex_sixth_call_fails = [''log-1'' \<mapsto> - 2, ''log'' \<mapsto> - 1]"
  "trace ex_sixth_call_fails = []"
  by (simp_all add: ex_sixth_call_fails_def ex_disk_def)

lemma ex_sixth_call_fails_backups:
  assumes "1 \<le> i" "files ex_sixth_call_fails (backup ''log'' i) \<noteq> None"
  shows "i = 1"
proof -
  from assms(2) have "backup ''log'' i = ''log'' \<or> backup ''log'' i = ''log-1''"
    by (simp add: ex_sixth_call_fails_files split: if_splits)
  then show ?thesis using backup_log_eq[OF assms(1)] by simp
qed

lemma ex_sixth_call_fails_chain: "chain_ok ''log'' 2 (files ex_sixth_call_fails)"
  unfolding chain_ok_def
proof (intro allI impI)
  fix i assume i: "1 \<le> i \<and> files ex_sixth_call_fails (backup ''log'' i) \<noteq> None"
  then have "i = 1" using ex_sixth_call_fails_backups[of i] by blast
  then show "i \<le> 2 \<and> files ex_sixth_call_fails (oldPath ''log'' i) \<noteq> None"
    by (simp add: oldPath_def ex_sixth_call_fails_files)
qed

lemma ex_sixth_call_fails_aged: "aged ''log'' 2 ex_sixth_call_fails"
proof (rule agedI)
  show "tracked ex_sixth_call_fails" by (simp add: tracked_def ex_sixth_call_fails_files)
next
  fix q t assume "begun ex_sixth_call_fails q = Some t"
  then show "t \<le> int (length (trace ex_sixth_call_fails))"
    by (auto simp: ex_sixth_call_fails_files split: if_splits)
next
  fix i assume "1 \<le> i" "files ex_sixth_call_fails (backup ''log'' i) \<noteq> None"
  then have "i = 1" by (rule ex_sixth_call_fails_backups)
  then show "i \<le> 2" by simp
next
  fix i j s t assume ij: "0 \<le> i" "i < j" and s: "begun ex_sixth_call_fails (slot ''log'' i) = Some s"
    and t: "begun ex_sixth_call_fails (slot ''log'' j) = Some t"
  have j1: "1 \<le> j" using ij by simp
  then have tb: "begun ex_sixth_call_fails (backup ''log'' j) = Some t" using t by (simp add: slot_def)
  then have "files ex_sixth_call_fails (backup ''log'' j) \<noteq> None"
    by (auto simp: ex_sixth_call_fails_files split: if_splits)
  from ex_sixth_call_fails_backups[OF j1 this] have j: "j = 1" .
  then have "i = 0" using ij by simp
  then show "t < s" using s tb j by (simp add: slot_def ex_sixth_call_fails_files)
qed

section \<open>The claims\<close>

text \<open>
  Claim C1. For a Rotator that keeps \<open>N \<ge> 1\<close> backups, a rotation that succeeds makes
  these calls in this order: the close of the open file if there is one, the removal of
  \<open>path-N\<close>, the renames of \<open>path-(i-1)\<close> (of \<open>path\<close> for \<open>i = 1\<close>) to \<open>path-i\<close> for
  \<open>i\<close> from \<open>N\<close> down to 1, and the creation of \<open>path\<close>. Afterwards backup \<open>i\<close> holds
  what slot \<open>i - 1\<close> held before, so nothing was overwritten before it was moved; the
  file at \<open>path\<close> is empty, every other file is as it was, the new handle is installed
  and open, and the size is 0. A missing file is no error: with no fault and no file to
  close the rotation succeeds whatever is on disk.
\<close>

theorem rotate_shifts_backups:
  assumes "1 \<le> maxBackups r"
  shows "(faults w = [] \<and> file_r r = None \<longrightarrow> fst (rotate_r r w) = None) \<and>
         (\<forall>r' w'. rotate_r r w = (None, r', w') \<longrightarrow>
            trace w' = trace w @ (case file_r r of None \<Rightarrow> [] | Some f \<Rightarrow> [FClose f])
                          @ Remove (backup (path r) (maxBackups r))
                          # renames (path r) (maxBackups r) @ [Create (path r)] \<and>
            (\<forall>i. 1 \<le> i \<and> i \<le> maxBackups r \<longrightarrow>
                  files w' (backup (path r) i) = files w (oldPath (path r) i)) \<and>
            files w' (path r) = Some [] \<and>
            (\<forall>q. q \<noteq> path r \<and> (\<forall>i. 1 \<le> i \<and> i \<le> maxBackups r \<longrightarrow> q \<noteq> backup (path r) i)
                  \<longrightarrow> files w' q = files w q) \<and>
            r' = r\<lparr>file_r := Some (Handle (next_fd w) (path r)), size_r := 0\<rparr> \<and>
            next_fd w \<in> open_fds w')"
proof (intro conjI allI impI)
  assume "faults w = [] \<and> file_r r = None"
  then show "fst (rotate_r r w) = None" by (simp add: rotate_no_fault)
next
  fix r' w' assume R: "rotate_r r w = (None, r', w')"
  note e = rotate_backups_effect[OF assms R]
  show "trace w' = trace w @ (case file_r r of None \<Rightarrow> [] | Some f \<Rightarrow> [FClose f])
                          @ Remove (backup (path r) (maxBackups r))
                          # renames (path r) (maxBackups r) @ [Create (path r)]" by (rule e(1))
  show "files w' (path r) = Some []" by (rule e(3))
  show "r' = r\<lparr>file_r := Some (Handle (next_fd w) (path r)), size_r := 0\<rparr>" by (rule e(5))
  show "next_fd w \<in> open_fds w'" by (rule e(6))
  show "\<And>i. 1 \<le> i \<and> i \<le> maxBackups r \<Longrightarrow>
          files w' (backup (path r) i) = files w (oldPath (path r) i)"
    using e(2) by blast
  show "\<And>q. q \<noteq> path r \<and> (\<forall>i. 1 \<le> i \<and> i \<le> maxBackups r \<longrightarrow> q \<noteq> backup (path r) i) \<Longrightarrow>
          files w' q = files w q"
    using e(4) by blast
qed

theorem rotate_shifts_backups_witness:
  "1 \<le> maxBackups (ex_rotator 10 2) \<and>
   fst (rotate_r (ex_rotator 10 2) (ex_disk [(''log'', ''new''), (''log-1'', ''old'')] [])) = None \<and>
   (let w' = snd (snd (rotate_r (ex_rotator 10 2) (ex_disk [(''log'', ''new''), (''log-1'', ''old'')] [])))
    in trace w' = [Remove ''log-2'', Rename ''log-1'' ''log-2'', Rename ''log'' ''log-1'', Create ''log''] \<and>
       files w' ''log'' = Some [] \<and> files w' ''log-1'' = Some ''new'' \<and>
       files w' ''log-2'' = Some ''old'')"
proof -
  let ?r = "ex_rotator 10 2" and ?w = "ex_disk [(''log'', ''new''), (''log-1'', ''old'')] []"
  have n: "1 \<le> maxBackups ?r" by (simp add: ex_rotator_def)
  note T = rotate_shifts_backups[OF n, of ?w]
  have ok: "fst (rotate_r ?r ?w) = None"
    using T by (simp add: ex_rotator_def ex_disk_def)
  note E = T[THEN conjunct2, rule_format, OF result_parts[OF ok]]
  have t: "trace (snd (snd (rotate_r ?r ?w))) =
      [Remove ''log-2'', Rename ''log-1'' ''log-2'', Rename ''log'' ''log-1'', Create ''log'']"
    using E[THEN conjunct1]
    by (simp add: ex_rotator_def ex_disk_def renames_def upto.simps oldPath_def)
  have l: "files (snd (snd (rotate_r ?r ?w))) ''log'' = Some []"
    using E[THEN conjunct2, THEN conjunct2, THEN conjunct1] by (simp add: ex_rotator_def)
  have m: "\<And>i. 1 \<le> i \<and> i \<le> 2 \<Longrightarrow>
      files (snd (snd (rotate_r ?r ?w))) (backup ''log'' i) = files ?w (oldPath ''log'' i)"
    using E[THEN conjunct2, THEN conjunct1] by (simp add: ex_rotator_def)
  have b1: "files (snd (snd (rotate_r ?r ?w))) ''log-1'' = Some ''new''"
    using m[of 1] by (simp add: oldPath_def ex_disk_def)
  have b2: "files (snd (snd (rotate_r ?r ?w))) ''log-2'' = Some ''old''"
    using m[of 2] by (simp add: oldPath_def ex_disk_def)
  show ?thesis using n ok t l b1 b2 by (simp add: Let_def)
qed

text \<open>
  Claim C2. Once the file is open, a write rotates exactly when the sum of the current
  size and the length of the payload, computed in \<open>int64\<close>, exceeds \<open>maxSize\<close>: the
  close that starts a rotation is among the calls of the write in that case and in no
  other. Without rotation the write goes to the open file, after a successful rotation
  to the new file. When the rotation fails the write returns that error and the count 0,
  and the write makes no call that writes to a file. For a size that is not negative
  and a sum below \<open>2^63\<close> the \<open>int64\<close> sum is the sum of the integers.
\<close>

theorem write_rotates_before_writing:
  assumes "Write_open r w = (None, r1, w1)" and "Write r b w = (res, r', w')"
  shows "((\<exists>c\<in>set (calls w1 w'). is_FClose c) \<longleftrightarrow>
            maxSize r < add64 (size_r r1) (int64 (int (length b)))) \<and>
         (\<not> maxSize r < add64 (size_r r1) (int64 (int (length b))) \<longrightarrow>
            (res, r', w') = Write_file r1 b w1) \<and>
         (\<forall>r2 w2. maxSize r < add64 (size_r r1) (int64 (int (length b))) \<and>
            rotate_r r1 w1 = (None, r2, w2) \<longrightarrow> (res, r', w') = Write_file r2 b w2) \<and>
         (\<forall>e r2 w2. maxSize r < add64 (size_r r1) (int64 (int (length b))) \<and>
            rotate_r r1 w1 = (Some e, r2, w2) \<longrightarrow>
              res = (0, Some e) \<and> r' = r2 \<and> w' = w2 \<and>
              (\<forall>c\<in>set (calls w w'). \<not> is_FWrite c)) \<and>
         (0 \<le> size_r r1 \<and> size_r r1 + int (length b) < 2 ^ 63 \<longrightarrow>
            add64 (size_r r1) (int64 (int (length b))) = size_r r1 + int (length b))"
proof -
  let ?over = "maxSize r < add64 (size_r r1) (int64 (int (length b)))"
  have sum: "0 \<le> size_r r1 \<and> size_r r1 + int (length b) < 2 ^ 63 \<longrightarrow>
            add64 (size_r r1) (int64 (int (length b))) = size_r r1 + int (length b)"
    by (simp add: add64_length)
  note o = Write_open_success[OF assms(1)]
  from o(1) obtain f where f: "file_r r1 = Some f" by auto
  from o(3) obtain cs0 where cs0: "trace w1 = trace w @ cs0" "\<forall>c\<in>set cs0. \<not> is_FClose c \<and> \<not> is_FWrite c"
    by blast
  have ms: "maxSize r1 = maxSize r" using o(2) by simp
  have W: "Write r b w = Write_rest r1 b w1" using assms(1) by (simp add: Write_def)
  show ?thesis
  proof (cases ?over)
    case False
    then have R: "Write_rotate r1 b w1 = (None, r1, w1)" using ms by (simp add: Write_rotate_def)
    then have E: "(res, r', w') = Write_file r1 b w1" using W assms(2) by (simp add: Write_rest_def)
    obtain n err where res: "res = (n, err)" by (cases res)
    from E res have "Write_file r1 b w1 = ((n, err), r', w')" by simp
    from Write_file_effect(1)[OF this] f have "calls w1 w' = [FWrite f b]" by (simp add: calls_def)
    then show ?thesis using False E sum by simp
  next
    case True
    then have R: "Write_rotate r1 b w1 = rotate_r r1 w1" using ms by (simp add: Write_rotate_def)
    obtain e2 r2 w2 where rot: "rotate_r r1 w1 = (e2, r2, w2)" by (cases "rotate_r r1 w1")
    from rotate_calls(1)[OF rot] f obtain cs where
      cs: "trace w2 = trace w1 @ FClose f # cs" "\<forall>c\<in>set cs. is_Remove c \<or> is_Rename c \<or> is_Create c"
      by auto
    show ?thesis
    proof (cases e2)
      case (Some e)
      then have E: "res = (0, Some e)" "r' = r2" "w' = w2"
        using W R rot assms(2) by (simp_all add: Write_rest_def)
      have "calls w1 w' = FClose f # cs" using cs E by (simp add: calls_def)
      moreover have "calls w w' = cs0 @ FClose f # cs" using cs cs0 E by (simp add: calls_def)
      moreover have "\<forall>c\<in>set cs. \<not> is_FWrite c" using cs(2) file_calls_only by blast
      ultimately show ?thesis using True E rot Some cs0 sum by auto
    next
      case None
      then have E: "(res, r', w') = Write_file r2 b w2"
        using W R rot assms(2) by (simp add: Write_rest_def)
      obtain n err where res: "res = (n, err)" by (cases res)
      from E res have "Write_file r2 b w2 = ((n, err), r', w')" by simp
      from Write_file_effect(1)[OF this] obtain cs' where "trace w' = trace w2 @ cs'" by auto
      then have "calls w1 w' = FClose f # cs @ cs'" using cs by (simp add: calls_def)
      then show ?thesis using True E rot None sum by auto
    qed
  qed
qed

theorem write_rotates_before_writing_witness:
  "Write_open (ex_opened 10 2 9) (ex_disk [(''log'', ''123456789''), (''log-1'', ''old'')] [NoFault, NoFault, Fault EIO 0])
     = (None, ex_opened 10 2 9, ex_disk [(''log'', ''123456789''), (''log-1'', ''old'')] [NoFault, NoFault, Fault EIO 0]) \<and>
   maxSize (ex_opened 10 2 9) < add64 (size_r (ex_opened 10 2 9)) (int64 (int (length ''xy''))) \<and>
   (let w = ex_disk [(''log'', ''123456789''), (''log-1'', ''old'')] [NoFault, NoFault, Fault EIO 0];
        out = Write (ex_opened 10 2 9) ''xy'' w
    in fst out = (0, Some (Wrap (ErrIO EIO))) \<and>
       (\<exists>c\<in>set (calls w (snd (snd out))). is_FClose c) \<and>
       (\<forall>c\<in>set (calls w (snd (snd out))). \<not> is_FWrite c))"
proof -
  let ?r = "ex_opened 10 2 9"
  let ?w = "ex_disk [(''log'', ''123456789''), (''log-1'', ''old'')] [NoFault, NoFault, Fault EIO 0]"
  let ?out = "Write ?r ''xy'' ?w"
  have o: "Write_open ?r ?w = (None, ?r, ?w)"
    by (rule Write_open_open[of _ "Handle 3 ''log''"]) (simp add: ex_opened_def)
  have out: "?out = (fst ?out, fst (snd ?out), snd (snd ?out))" by simp
  note T = write_rotates_before_writing[OF o out]
  have over: "maxSize ?r < add64 (size_r ?r) (int64 (int (length ''xy'')))"
    by (simp add: ex_opened_def ex_rotator_def add64_def int64_def)
  have over': "maxSize ?r < add64 (size_r ?r) (int64 2)" using over by simp
  have "fst (rotate_r ?r ?w) = Some (Wrap (ErrIO EIO))" by (simp add: run_defs)
  from result_parts[OF this] have rot: "rotate_r ?r ?w =
      (Some (Wrap (ErrIO EIO)), fst (snd (rotate_r ?r ?w)), snd (snd (rotate_r ?r ?w)))" .
  have a: "\<exists>c\<in>set (calls ?w (snd (snd ?out))). is_FClose c"
    using T[THEN conjunct1] over by simp
  have b: "fst ?out = (0, Some (Wrap (ErrIO EIO))) \<and> (\<forall>c\<in>set (calls ?w (snd (snd ?out))). \<not> is_FWrite c)"
    using T over rot by blast
  show ?thesis using o over a b by (simp add: Let_def)
qed

text \<open>
  Claim C3. A write on a Rotator with no open file starts with \<open>os.Stat\<close> on the path.
  When the file does not exist the parent directories are made and the file is created,
  and the write goes on with the new handle and size 0; when it exists it is opened for
  appending and the write goes on with size the length of the file on disk; any other
  error of \<open>os.Stat\<close> ends the write with the wrapped error, the count 0 and the Rotator
  unchanged. A failure to make the directories or to create or open the file ends the
  write in the same way.
\<close>

theorem write_opens_lazily:
  assumes "file_r r = None" and "os_Stat (path r) w = (sres, w1)"
  shows "(\<forall>err. sres = Inl err \<and> IsNotExist err \<longrightarrow>
            files w (path r) = None \<and>
            (\<forall>e w2. os_MkdirAllDir (path r) w1 = (Some e, w2) \<longrightarrow>
               Write r b w = ((0, Some (Wrap e)), r, w2)) \<and>
            (\<forall>w2 w3 e. os_MkdirAllDir (path r) w1 = (None, w2) \<and> os_Create (path r) w2 = (Inl e, w3) \<longrightarrow>
               Write r b w = ((0, Some (Wrap e)), r, w3)) \<and>
            (\<forall>w2 w3 f. os_MkdirAllDir (path r) w1 = (None, w2) \<and> os_Create (path r) w2 = (Inr f, w3) \<longrightarrow>
               Write r b w = Write_rest (r\<lparr>file_r := Some f, size_r := 0\<rparr>) b w3 \<and>
               calls w w3 = [Stat (path r), MkdirAllDir (path r), Create (path r)] \<and>
               path r \<in> parents_made w3 \<and> files w3 (path r) = Some [])) \<and>
         (\<forall>fi. sres = Inr fi \<longrightarrow>
            (\<exists>c. files w (path r) = Some c \<and> Size fi = int (length c)) \<and>
            (\<forall>e w2. os_OpenFile (path r) w1 = (Inl e, w2) \<longrightarrow>
               Write r b w = ((0, Some (Wrap e)), r, w2)) \<and>
            (\<forall>f w2. os_OpenFile (path r) w1 = (Inr f, w2) \<longrightarrow>
               Write r b w = Write_rest (r\<lparr>file_r := Some f, size_r := Size fi\<rparr>) b w2 \<and>
               calls w w2 = [Stat (path r), OpenFile (path r)] \<and> files w2 = files w)) \<and>
         (\<forall>err. sres = Inl err \<and> \<not> IsNotExist err \<longrightarrow>
            Write r b w = ((0, Some (Wrap err)), r, w1) \<and> files w1 = files w)"
proof -
  note s = os_Stat_effect[OF assms(2)]
  have t1: "trace w1 = trace w @ [Stat (path r)]" "files w1 = files w" using s by simp_all
  show ?thesis
  proof (intro conjI allI impI)
    fix err assume "sres = Inl err \<and> IsNotExist err"
    then show "files w (path r) = None" using s by simp
  next
    fix err e w2 assume "sres = Inl err \<and> IsNotExist err" "os_MkdirAllDir (path r) w1 = (Some e, w2)"
    then show "Write r b w = ((0, Some (Wrap e)), r, w2)"
      using assms by (simp add: Write_def Write_open_def)
  next
    fix err w2 w3 e
    assume "sres = Inl err \<and> IsNotExist err"
      "os_MkdirAllDir (path r) w1 = (None, w2) \<and> os_Create (path r) w2 = (Inl e, w3)"
    then show "Write r b w = ((0, Some (Wrap e)), r, w3)"
      using assms by (simp add: Write_def Write_open_def)
  next
    fix err w2 w3 f
    assume a: "sres = Inl err \<and> IsNotExist err"
      "os_MkdirAllDir (path r) w1 = (None, w2) \<and> os_Create (path r) w2 = (Inr f, w3)"
    then show "Write r b w = Write_rest (r\<lparr>file_r := Some f, size_r := 0\<rparr>) b w3"
      using assms by (simp add: Write_def Write_open_def)
    from a have M: "os_MkdirAllDir (path r) w1 = (None, w2)" and C: "os_Create (path r) w2 = (Inr f, w3)"
      by simp_all
    note m = os_MkdirAllDir_effect[OF M] and c = os_Create_effect[OF C]
    show "calls w w3 = [Stat (path r), MkdirAllDir (path r), Create (path r)]"
      using t1 m c by (simp add: calls_def)
    show "path r \<in> parents_made w3" using m c by simp
    show "files w3 (path r) = Some []" using c by simp
  next
    fix fi assume "sres = Inr fi"
    then show "\<exists>c. files w (path r) = Some c \<and> Size fi = int (length c)" using s by simp
  next
    fix fi e w2 assume "sres = Inr fi" "os_OpenFile (path r) w1 = (Inl e, w2)"
    then show "Write r b w = ((0, Some (Wrap e)), r, w2)"
      using assms by (simp add: Write_def Write_open_def)
  next
    fix fi f w2 assume a: "sres = Inr fi" "os_OpenFile (path r) w1 = (Inr f, w2)"
    then show "Write r b w = Write_rest (r\<lparr>file_r := Some f, size_r := Size fi\<rparr>) b w2"
      using assms by (simp add: Write_def Write_open_def)
    note o = os_OpenFile_effect[OF a(2)]
    show "calls w w2 = [Stat (path r), OpenFile (path r)]" using t1 o by (simp add: calls_def)
    show "files w2 = files w" using t1 o by simp
  next
    fix err assume "sres = Inl err \<and> \<not> IsNotExist err"
    then show "Write r b w = ((0, Some (Wrap err)), r, w1)"
      using assms by (simp add: Write_def Write_open_def)
  next
    fix err assume "sres = Inl err \<and> \<not> IsNotExist err"
    show "files w1 = files w" using t1 by simp
  qed
qed

theorem write_opens_lazily_witness:
  "file_r (ex_rotator 10 2) = None \<and>
   (let w = ex_disk [] []; out = Write (ex_rotator 10 2) ''abc'' w
    in fst (os_Stat ''log'' w) = Inl ErrNotExist \<and> fst out = (3, None) \<and>
       size_r (fst (snd out)) = 3 \<and> files (snd (snd out)) ''log'' = Some ''abc'' \<and>
       ''log'' \<in> parents_made (snd (snd out))) \<and>
   (let w = ex_disk [(''log'', ''1234'')] []; out = Write (ex_rotator 10 2) ''ab'' w
    in fst out = (2, None) \<and> size_r (fst (snd out)) = 6 \<and>
       files (snd (snd out)) ''log'' = Some ''1234ab'') \<and>
   (let w = ex_disk [(''log'', ''1234'')] [Fault EACCES 0]; out = Write (ex_rotator 10 2) ''ab'' w
    in fst out = (0, Some (Wrap (ErrIO EACCES))) \<and> fst (snd out) = ex_rotator 10 2 \<and>
       files (snd (snd out)) = files w)"
proof -
  let ?r = "ex_rotator 10 2"
  have n: "file_r ?r = None" by (simp add: ex_rotator_def)
  have p: "path ?r = ''log''" by (simp add: ex_rotator_def)
  have pair: "\<And>x. x = (fst x, snd x)" by simp
  text \<open>The file is missing.\<close>
  let ?w = "ex_disk [] []"
  let ?w1 = "snd (os_Stat ''log'' ?w)"
  let ?w2 = "snd (os_MkdirAllDir ''log'' ?w1)"
  let ?w3 = "snd (os_Create ''log'' ?w2)"
  note A = write_opens_lazily[OF n, of ?w "fst (os_Stat ''log'' ?w)" ?w1 "''abc''", unfolded p, OF pair]
  have s: "fst (os_Stat ''log'' ?w) = Inl ErrNotExist" by (simp add: run_defs)
  have m: "os_MkdirAllDir ''log'' ?w1 = (None, ?w2)"
    by (rule result_pair) (simp add: run_defs)
  have c: "os_Create ''log'' ?w2 = (Inr (Handle 4 ''log''), ?w3)"
    by (rule result_pair) (simp add: run_defs)
  have A': "Write ?r ''abc'' ?w = Write_rest (?r\<lparr>file_r := Some (Handle 4 ''log''), size_r := 0\<rparr>) ''abc'' ?w3 \<and>
       calls ?w ?w3 = [Stat ''log'', MkdirAllDir ''log'', Create ''log''] \<and>
       ''log'' \<in> parents_made ?w3 \<and> files ?w3 ''log'' = Some []"
    using A s m c unfolding IsNotExist_def by blast
  have a: "fst (Write ?r ''abc'' ?w) = (3, None) \<and> size_r (fst (snd (Write ?r ''abc'' ?w))) = 3 \<and>
       files (snd (snd (Write ?r ''abc'' ?w))) ''log'' = Some ''abc'' \<and>
       ''log'' \<in> parents_made (snd (snd (Write ?r ''abc'' ?w)))"
    unfolding A'[THEN conjunct1] by (simp add: run_defs)
  text \<open>The file is there.\<close>
  let ?v = "ex_disk [(''log'', ''1234'')] []"
  let ?v1 = "snd (os_Stat ''log'' ?v)"
  let ?v2 = "snd (os_OpenFile ''log'' ?v1)"
  note B = write_opens_lazily[OF n, of ?v "fst (os_Stat ''log'' ?v)" ?v1 "''ab''", unfolded p, OF pair]
  have s2: "fst (os_Stat ''log'' ?v) = Inr (FileInfo 4)" by (simp add: run_defs)
  have o2: "os_OpenFile ''log'' ?v1 = (Inr (Handle 4 ''log''), ?v2)"
    by (rule result_pair) (simp add: run_defs)
  have B': "Write ?r ''ab'' ?v = Write_rest (?r\<lparr>file_r := Some (Handle 4 ''log''), size_r := 4\<rparr>) ''ab'' ?v2"
    using B s2 o2 by (simp add: ex_rotator_def)
  have b: "fst (Write ?r ''ab'' ?v) = (2, None) \<and> size_r (fst (snd (Write ?r ''ab'' ?v))) = 6 \<and>
       files (snd (snd (Write ?r ''ab'' ?v))) ''log'' = Some ''1234ab''"
    unfolding B' by (simp add: run_defs)
  text \<open>The stat fails for another reason.\<close>
  let ?u = "ex_disk [(''log'', ''1234'')] [Fault EACCES 0]"
  let ?u1 = "snd (os_Stat ''log'' ?u)"
  note C = write_opens_lazily[OF n, of ?u "fst (os_Stat ''log'' ?u)" ?u1 "''ab''", unfolded p, OF pair]
  have s3: "fst (os_Stat ''log'' ?u) = Inl (ErrIO EACCES)" by (simp add: run_defs)
  have c3: "Write ?r ''ab'' ?u = ((0, Some (Wrap (ErrIO EACCES))), ?r, ?u1) \<and> files ?u1 = files ?u"
    using C s3 by (simp add: IsNotExist_def)
  show ?thesis using n s a b c3 by (simp add: Let_def)
qed

text \<open>
  Claim C4. When a write reaches the write to the file, the number \<open>n\<close> of bytes that
  call reports is returned and added to the size, with the error of the call wrapped,
  whether the call succeeded or not; \<open>n\<close> is at most the length of the payload and a
  short count comes with an error.
\<close>

theorem write_counts_bytes_written:
  assumes "Write_open r w = (None, r1, w1)" and "Write_rotate r1 b w1 = (None, r2, w2)"
  shows "\<exists>f. file_r r2 = Some f \<and>
           (\<forall>n err w3. file_Write f b w2 = ((n, err), w3) \<longrightarrow>
              Write r b w = ((n, map_option Wrap err),
                             r2\<lparr>size_r := add64 (size_r r2) (int64 (int n))\<rparr>, w3) \<and>
              n \<le> length b \<and> (n < length b \<longrightarrow> err \<noteq> None))"
proof -
  have "file_r r2 \<noteq> None"
  proof (cases "maxSize r1 < add64 (size_r r1) (int64 (int (length b)))")
    case True
    then have "rotate_r r1 w1 = (None, r2, w2)" using assms(2) by (simp add: Write_rotate_def)
    from rotate_calls(5)[OF this] show ?thesis by simp
  next
    case False
    then have "r2 = r1" using assms(2) by (simp add: Write_rotate_def)
    then show ?thesis using Write_open_success(1)[OF assms(1)] by simp
  qed
  then obtain f where f: "file_r r2 = Some f" by auto
  have W: "Write r b w = Write_file r2 b w2" using assms by (simp add: Write_def Write_rest_def)
  show ?thesis
  proof (intro exI[of _ f] conjI allI impI)
    show "file_r r2 = Some f" by fact
  next
    fix n err w3 assume F: "file_Write f b w2 = ((n, err), w3)"
    show "Write r b w = ((n, map_option Wrap err), r2\<lparr>size_r := add64 (size_r r2) (int64 (int n))\<rparr>, w3)"
      using W f F by (simp add: Write_file_def)
    show "n \<le> length b" using file_Write_effect[OF F] by simp
    assume "n < length b"
    then show "err \<noteq> None" using file_Write_effect[OF F] by auto
  qed
qed

theorem write_counts_bytes_written_witness:
  "(let r = ex_opened 10 2 4; w = ex_disk [(''log'', ''1234'')] [Fault ENOSPC 2];
        out = Write r ''abc'' w
    in Write_open r w = (None, r, w) \<and> Write_rotate r ''abc'' w = (None, r, w) \<and>
       fst (file_Write (Handle 3 ''log'') ''abc'' w) = (2, Some (ErrIO ENOSPC)) \<and>
       fst out = (2, Some (Wrap (ErrIO ENOSPC))) \<and> size_r (fst (snd out)) = 6 \<and>
       files (snd (snd out)) ''log'' = Some ''1234ab'')"
proof -
  let ?r = "ex_opened 10 2 4" and ?w = "ex_disk [(''log'', ''1234'')] [Fault ENOSPC 2]"
  let ?f = "Handle 3 ''log''"
  have f: "file_r ?r = Some ?f" by (simp add: ex_opened_def)
  have o: "Write_open ?r ?w = (None, ?r, ?w)" using f by (rule Write_open_open)
  have t: "Write_rotate ?r ''abc'' ?w = (None, ?r, ?w)"
    by (simp add: Write_rotate_def ex_opened_def ex_rotator_def add64_def int64_def)
  have fw1: "fst (file_Write ?f ''abc'' ?w) = (2, Some (ErrIO ENOSPC))" by (simp add: run_defs)
  from result_pair[OF this]
  have fw: "file_Write ?f ''abc'' ?w = ((2, Some (ErrIO ENOSPC)), snd (file_Write ?f ''abc'' ?w))" .
  from write_counts_bytes_written[OF o t] f fw
  have W: "Write ?r ''abc'' ?w =
      ((2, map_option Wrap (Some (ErrIO ENOSPC))),
       ?r\<lparr>size_r := add64 (size_r ?r) (int64 (int 2))\<rparr>, snd (file_Write ?f ''abc'' ?w))"
    by auto
  have a: "fst (Write ?r ''abc'' ?w) = (2, Some (Wrap (ErrIO ENOSPC)))" unfolding W by simp
  have b: "size_r (fst (snd (Write ?r ''abc'' ?w))) = 6"
    unfolding W by (simp add: ex_opened_def add64_def int64_def)
  have c: "files (snd (snd (Write ?r ''abc'' ?w))) ''log'' = Some ''1234ab''"
    unfolding W by (simp add: run_defs)
  show ?thesis using o t fw1 a b c by (simp add: Let_def)
qed

text \<open>
  Claim C5, amended. Start from a Rotator with no open file on a disk whose backups are
  numbered from 1 to \<open>maxBackups\<close>, each with the slot before it filled, the live file
  being the slot before backup 1, and where of two slots the one with the smaller number
  is strictly newer. After any sequence of writes, rotations and closes, failed or not,
  every backup on disk has a number from 1 to \<open>maxBackups\<close> and the backups are
  strictly newest to oldest: of two backups on disk the one with the smaller number
  holds the content that was begun later. When moreover no rotation of the sequence has
  failed, there is no gap: backup \<open>i - 1\<close> exists whenever backup \<open>i > 1\<close> does.
\<close>

theorem backups_numbered_newest_first:
  assumes "file_r r = None" and "chain_ok (path r) (maxBackups r) (files w)"
    and "aged (path r) (maxBackups r) w" and "run xs (r, w) = (r', w')"
  shows "in_range (path r) (maxBackups r) (files w') \<and> newest_first (path r) w' \<and>
         (rotations_complete xs (r, w) \<longrightarrow> numbered (path r) (maxBackups r) (files w'))"
proof (intro conjI impI)
  have a: "aged (path r) (maxBackups r) w'" using run_aged[OF assms(4,3)] .
  show "in_range (path r) (maxBackups r) (files w')" using a by (simp add: aged_def)
  show "newest_first (path r) w'" using a by (rule aged_newest_first)
  assume rc: "rotations_complete xs (r, w)"
  have s: "settled (r, w)" using assms(1,2) by (simp add: settled_def)
  from run_settled[OF s rc] have "settled (r', w')" using assms(4) by simp
  then have "chain_ok (path r') (maxBackups r') (files w')" by (simp add: settled_def)
  then have "chain_ok (path r) (maxBackups r) (files w')" using run_config[OF assms(4)] by simp
  then show "numbered (path r) (maxBackups r) (files w')" by (rule chain_ok_numbered)
qed

theorem backups_numbered_newest_first_witness:
  "(let r = ex_rotator 5 2; w = ex_disk [] [];
        xs = [OpWrite ''aaaa'', OpWrite ''bbbb'', OpClose, OpWrite ''cccc''];
        w' = snd (run xs (r, w))
    in file_r r = None \<and> chain_ok (path r) (maxBackups r) (files w) \<and>
       aged (path r) (maxBackups r) w \<and> rotations_complete xs (r, w) \<and>
       in_range ''log'' 2 (files w') \<and> newest_first ''log'' w' \<and> numbered ''log'' 2 (files w') \<and>
       files w' ''log'' = Some ''cccc'' \<and> files w' ''log-1'' = Some ''bbbb'' \<and>
       files w' ''log-2'' = Some ''aaaa'' \<and>
       begun w' ''log'' = Some 18 \<and> begun w' ''log-1'' = Some 9 \<and> begun w' ''log-2'' = Some 3) \<and>
   (let r = ex_rotator 5 2; w = ex_sixth_call_fails; xs = [OpWrite ''xx''];
        w' = snd (run xs (r, w))
    in chain_ok (path r) (maxBackups r) (files w) \<and> aged (path r) (maxBackups r) w \<and>
       \<not> rotations_complete xs (r, w) \<and>
       in_range ''log'' 2 (files w') \<and> newest_first ''log'' w' \<and>
       begun w' ''log'' = Some (- 1) \<and> begun w' ''log-2'' = Some (- 2))"
proof -
  let ?r = "ex_rotator 5 2" and ?w = "ex_disk [] []"
  let ?xs = "[OpWrite ''aaaa'', OpWrite ''bbbb'', OpClose, OpWrite ''cccc'']"
  have n: "file_r ?r = None" by (simp add: ex_rotator_def)
  have p: "path ?r = ''log''" "maxBackups ?r = 2" by (simp_all add: ex_rotator_def)
  have c: "chain_ok (path ?r) (maxBackups ?r) (files ?w)" by (simp add: chain_ok_def ex_disk_def)
  have a: "aged (path ?r) (maxBackups ?r) ?w"
    by (simp add: aged_def tracked_def in_range_def ex_disk_def)
  have rc: "rotations_complete ?xs (?r, ?w)" by (simp add: run_defs)
  have out: "run ?xs (?r, ?w) = (fst (run ?xs (?r, ?w)), snd (run ?xs (?r, ?w)))" by simp
  from backups_numbered_newest_first[OF n c a out] rc
  have N: "in_range ''log'' 2 (files (snd (run ?xs (?r, ?w)))) \<and>
           newest_first ''log'' (snd (run ?xs (?r, ?w))) \<and>
           numbered ''log'' 2 (files (snd (run ?xs (?r, ?w))))"
    unfolding p by blast
  have f: "files (snd (run ?xs (?r, ?w))) ''log'' = Some ''cccc'' \<and>
           files (snd (run ?xs (?r, ?w))) ''log-1'' = Some ''bbbb'' \<and>
           files (snd (run ?xs (?r, ?w))) ''log-2'' = Some ''aaaa''"
    by (simp add: run_defs)
  have b: "begun (snd (run ?xs (?r, ?w))) ''log'' = Some 18 \<and>
           begun (snd (run ?xs (?r, ?w))) ''log-1'' = Some 9 \<and>
           begun (snd (run ?xs (?r, ?w))) ''log-2'' = Some 3"
    by (simp add: run_defs)
  let ?v = "ex_sixth_call_fails" and ?ys = "[OpWrite ''xx'']"
  have c2: "chain_ok (path ?r) (maxBackups ?r) (files ?v)"
    unfolding p by (rule ex_sixth_call_fails_chain)
  have a2: "aged (path ?r) (maxBackups ?r) ?v" unfolding p by (rule ex_sixth_call_fails_aged)
  have rc2: "\<not> rotations_complete ?ys (?r, ?v)" by (simp add: run_defs)
  have out2: "run ?ys (?r, ?v) = (fst (run ?ys (?r, ?v)), snd (run ?ys (?r, ?v)))" by simp
  from backups_numbered_newest_first[OF n c2 a2 out2]
  have N2: "in_range ''log'' 2 (files (snd (run ?ys (?r, ?v)))) \<and>
            newest_first ''log'' (snd (run ?ys (?r, ?v)))"
    unfolding p by blast
  have b2: "begun (snd (run ?ys (?r, ?v))) ''log'' = Some (- 1) \<and>
            begun (snd (run ?ys (?r, ?v))) ''log-2'' = Some (- 2)"
    by (simp add: run_defs)
  show ?thesis using n c a rc N f b c2 a2 rc2 N2 b2 by (simp add: Let_def)
qed

theorem backups_numbered_newest_first_counterexample:
  "numbered ''log'' 2 (files ex_sixth_call_fails) \<and>
   files (snd (run [OpWrite ''xx''] (ex_rotator 5 2, ex_sixth_call_fails))) (backup ''log'' 2) = Some ''b'' \<and>
   files (snd (run [OpWrite ''xx''] (ex_rotator 5 2, ex_sixth_call_fails))) (backup ''log'' 1) = None \<and>
   \<not> numbered ''log'' 2 (files (snd (run [OpWrite ''xx''] (ex_rotator 5 2, ex_sixth_call_fails))))"
proof -
  let ?w = "ex_sixth_call_fails"
  let ?w' = "snd (run [OpWrite ''xx''] (ex_rotator 5 2, ?w))"
  have c: "numbered ''log'' 2 (files ?w)"
    unfolding numbered_def
  proof (intro allI impI)
    fix i assume i: "1 \<le> i \<and> files ?w (backup ''log'' i) \<noteq> None"
    then have "backup ''log'' i = ''log'' \<or> backup ''log'' i = ''log-1''"
      by (simp add: ex_sixth_call_fails_def ex_disk_def split: if_splits)
    then have "i = 1" using i backup_log_eq[of i] by simp
    then show "i \<le> 2 \<and> (1 < i \<longrightarrow> files ?w (backup ''log'' (i - 1)) \<noteq> None)" by simp
  qed
  have f2: "files ?w' (backup ''log'' 2) = Some ''b''" by (simp add: run_defs)
  have f1: "files ?w' (backup ''log'' 1) = None" by (simp add: run_defs)
  have "\<not> numbered ''log'' 2 (files ?w')"
  proof
    assume "numbered ''log'' 2 (files ?w')"
    then have "1 \<le> (2::int) \<and> files ?w' (backup ''log'' 2) \<noteq> None \<longrightarrow>
        (1 < (2::int) \<longrightarrow> files ?w' (backup ''log'' (2 - 1)) \<noteq> None)"
      unfolding numbered_def by blast
    then show False using f1 f2 by simp
  qed
  then show ?thesis using c f1 f2 by simp
qed

text \<open>
  Claim C6. When \<open>rotate\<close> is entered with an open file it closes and forgets it. If the
  close fails, \<open>rotate\<close> returns that error wrapped, has made no other call, has changed
  no file and leaves the Rotator without a handle, so that the next write starts with
  \<open>os.Stat\<close> on the path; if the close succeeds, the rotation goes on as one entered
  without a handle. A rotation that fails at any point leaves the Rotator without a
  handle.
\<close>

theorem rotate_forgets_handle:
  assumes "file_r r = Some f" and "file_Close f w = (cres, w1)"
  shows "(\<forall>err. cres = Some err \<longrightarrow>
            rotate_r r w = (Some (Wrap err), r\<lparr>file_r := None\<rparr>, w1) \<and>
            files w1 = files w \<and> calls w w1 = [FClose f] \<and>
            (\<forall>b. \<exists>cs. calls w1 (snd (snd (Write (r\<lparr>file_r := None\<rparr>) b w1))) = Stat (path r) # cs)) \<and>
         (cres = None \<longrightarrow> rotate_r r w = rotate_r (r\<lparr>file_r := None\<rparr>) w1) \<and>
         (\<forall>e r' w'. rotate_r r w = (Some e, r', w') \<longrightarrow> r' = r\<lparr>file_r := None\<rparr>)"
proof (intro conjI allI impI)
  note c = file_Close_effect[OF assms(2)]
  fix err assume e: "cres = Some err"
  show "rotate_r r w = (Some (Wrap err), r\<lparr>file_r := None\<rparr>, w1)"
    using assms e by (simp add: rotate_r_def rotate_close_def)
  show "files w1 = files w" using c by simp
  show "calls w w1 = [FClose f]" using c by (simp add: calls_def)
  fix b
  show "\<exists>cs. calls w1 (snd (snd (Write (r\<lparr>file_r := None\<rparr>) b w1))) = Stat (path r) # cs"
    using Write_closed_starts_with_Stat[of "r\<lparr>file_r := None\<rparr>" w1 b] by simp
next
  assume "cres = None"
  then show "rotate_r r w = rotate_r (r\<lparr>file_r := None\<rparr>) w1"
    using assms by (simp add: rotate_r_def rotate_close_def)
next
  fix e r' w' assume "rotate_r r w = (Some e, r', w')"
  from rotate_calls(3)[OF this] show "r' = r\<lparr>file_r := None\<rparr>" by simp
qed

theorem rotate_forgets_handle_witness:
  "(let r = ex_opened 10 2 9; w = ex_disk [(''log'', ''123456789''), (''log-1'', ''old'')] [Fault EIO 0];
        out = rotate_r r w
    in file_r r = Some (Handle 3 ''log'') \<and>
       fst (file_Close (Handle 3 ''log'') w) = Some (ErrIO EIO) \<and>
       fst out = Some (Wrap (ErrIO EIO)) \<and> file_r (fst (snd out)) = None \<and>
       files (snd (snd out)) = files w \<and> calls w (snd (snd out)) = [FClose (Handle 3 ''log'')])"
proof -
  let ?r = "ex_opened 10 2 9"
  let ?w = "ex_disk [(''log'', ''123456789''), (''log-1'', ''old'')] [Fault EIO 0]"
  let ?f = "Handle 3 ''log''"
  have f: "file_r ?r = Some ?f" by (simp add: ex_opened_def)
  have c1: "fst (file_Close ?f ?w) = Some (ErrIO EIO)" by (simp add: run_defs)
  from result_pair[OF this]
  have c: "file_Close ?f ?w = (Some (ErrIO EIO), snd (file_Close ?f ?w))" .
  from rotate_forgets_handle[OF f c]
  have R: "rotate_r ?r ?w = (Some (Wrap (ErrIO EIO)), ?r\<lparr>file_r := None\<rparr>, snd (file_Close ?f ?w))"
    and F: "files (snd (file_Close ?f ?w)) = files ?w"
    and C: "calls ?w (snd (file_Close ?f ?w)) = [FClose ?f]"
    by blast+
  show ?thesis using f c1 unfolding Let_def R by (simp add: F C)
qed

text \<open>
  Claim C7, amended. For a Rotator that keeps no backup, a rotation that succeeds has
  removed the file at the path and created it again, and nothing else: the file at the
  path is empty and every other file, backups included, is as it was. A missing file is
  no error: with no fault and no file to close the rotation succeeds whatever is on disk.
\<close>

theorem rotate_without_backups:
  assumes "maxBackups r < 1"
  shows "(faults w = [] \<and> file_r r = None \<longrightarrow> fst (rotate_r r w) = None) \<and>
         (\<forall>r' w'. rotate_r r w = (None, r', w') \<longrightarrow>
            trace w' = trace w @ (case file_r r of None \<Rightarrow> [] | Some f \<Rightarrow> [FClose f])
                          @ [Remove (path r), Create (path r)] \<and>
            files w' = (files w)(path r \<mapsto> []) \<and>
            r' = r\<lparr>file_r := Some (Handle (next_fd w) (path r)), size_r := 0\<rparr>)"
proof (intro conjI allI impI)
  assume "faults w = [] \<and> file_r r = None"
  then show "fst (rotate_r r w) = None" by (simp add: rotate_no_fault)
next
  fix r' w' assume R: "rotate_r r w = (None, r', w')"
  note e = rotate_nobackups_effect[OF assms R]
  show "trace w' = trace w @ (case file_r r of None \<Rightarrow> [] | Some f \<Rightarrow> [FClose f])
                          @ [Remove (path r), Create (path r)]" by (rule e(1))
  show "files w' = (files w)(path r \<mapsto> [])" by (rule e(2))
  show "r' = r\<lparr>file_r := Some (Handle (next_fd w) (path r)), size_r := 0\<rparr>" by (rule e(3))
qed

theorem rotate_without_backups_witness:
  "(let r = ex_rotator 10 0; w = ex_disk [] []; out = rotate_r r w
    in maxBackups r < 1 \<and> files w ''log'' = None \<and> fst out = None \<and>
       trace (snd (snd out)) = [Remove ''log'', Create ''log''] \<and>
       files (snd (snd out)) = (files w)(''log'' \<mapsto> []) \<and>
       fst (snd out) = r\<lparr>file_r := Some (Handle 4 ''log''), size_r := 0\<rparr>)"
proof -
  let ?r = "ex_rotator 10 0" and ?w = "ex_disk [] []"
  have n: "maxBackups ?r < 1" by (simp add: ex_rotator_def)
  note T = rotate_without_backups[OF n, of ?w]
  have ok: "fst (rotate_r ?r ?w) = None" using T by (simp add: ex_rotator_def ex_disk_def)
  from T result_parts[OF ok]
  have E: "trace (snd (snd (rotate_r ?r ?w))) = trace ?w @ (case file_r ?r of None \<Rightarrow> [] | Some f \<Rightarrow> [FClose f])
                          @ [Remove (path ?r), Create (path ?r)] \<and>
            files (snd (snd (rotate_r ?r ?w))) = (files ?w)(path ?r \<mapsto> []) \<and>
            fst (snd (rotate_r ?r ?w)) = ?r\<lparr>file_r := Some (Handle (next_fd ?w) (path ?r)), size_r := 0\<rparr>"
    by blast
  show ?thesis using n ok E by (simp add: Let_def ex_rotator_def ex_disk_def)
qed

theorem rotate_without_backups_counterexample:
  "maxBackups (ex_opened 10 0 9) < 1 \<and>
   fst (rotate_r (ex_opened 10 0 9) ex_old_backup) = None \<and>
   files (snd (snd (rotate_r (ex_opened 10 0 9) ex_old_backup))) (backup ''log'' 1) = Some ''old''"
  by (simp add: run_defs)

text \<open>
  Claim C8, amended. \<open>Close\<close> leaves the Rotator without a handle and the descriptor
  closed, changes no file, and does nothing at all when no file is open. Its error is
  that of the close of the file, wrapped. A second \<open>Close\<close> always returns no error
  and changes nothing, and a later write starts with \<open>os.Stat\<close> on the path.
\<close>

theorem close_twice:
  assumes "Close r w = (e1, r1, w1)"
  shows "r1 = r\<lparr>file_r := None\<rparr> \<and> files w1 = files w \<and> parents_made w1 = parents_made w \<and>
         (file_r r = None \<longrightarrow> e1 = None \<and> w1 = w) \<and>
         (\<forall>f. file_r r = Some f \<longrightarrow>
            fd f \<notin> open_fds w1 \<and> calls w w1 = [FClose f] \<and>
            e1 = map_option Wrap (fst (file_Close f w))) \<and>
         Close r1 w1 = (None, r1, w1) \<and>
         (\<forall>b. \<exists>cs. calls w1 (snd (snd (Write r1 b w1))) = Stat (path r) # cs)"
proof -
  have r1: "r1 = r\<lparr>file_r := None\<rparr>"
    using assms by (auto simp: Close_def split: option.splits prod.splits)
  have "files w1 = files w \<and> parents_made w1 = parents_made w"
    using assms by (auto simp: Close_def split: option.splits prod.splits dest!: file_Close_effect)
  moreover have "file_r r = None \<longrightarrow> e1 = None \<and> w1 = w"
    using assms by (auto simp: Close_def)
  moreover have "\<forall>f. file_r r = Some f \<longrightarrow>
            fd f \<notin> open_fds w1 \<and> calls w w1 = [FClose f] \<and>
            e1 = map_option Wrap (fst (file_Close f w))"
  proof (intro allI impI)
    fix f assume f: "file_r r = Some f"
    obtain cres w0 where C: "file_Close f w = (cres, w0)" by (cases "file_Close f w")
    have "w1 = w0" "e1 = map_option Wrap cres"
      using assms f C by (auto simp: Close_def split: option.splits)
    then show "fd f \<notin> open_fds w1 \<and> calls w w1 = [FClose f] \<and>
            e1 = map_option Wrap (fst (file_Close f w))"
      using file_Close_effect[OF C] C by (simp add: calls_def)
  qed
  moreover have "Close r1 w1 = (None, r1, w1)" using r1 by (simp add: Close_def)
  moreover have "\<forall>b. \<exists>cs. calls w1 (snd (snd (Write r1 b w1))) = Stat (path r) # cs"
    using Write_closed_starts_with_Stat[of r1 w1] r1 by simp
  ultimately show ?thesis using r1 by blast
qed

theorem close_twice_witness:
  "(let r = ex_opened 10 2 9; w = ex_disk [(''log'', ''123456789'')] [];
        out = Close r w; again = Close (fst (snd out)) (snd (snd out))
    in fst out = None \<and> file_r (fst (snd out)) = None \<and> files (snd (snd out)) = files w \<and>
       3 \<notin> open_fds (snd (snd out)) \<and> again = (None, snd out))"
proof -
  let ?r = "ex_opened 10 2 9"
  let ?w = "ex_disk [(''log'', ''123456789'')] []"
  let ?f = "Handle 3 ''log''"
  let ?out = "Close ?r ?w"
  have f: "file_r ?r = Some ?f" by (simp add: ex_opened_def)
  have out: "?out = (fst ?out, fst (snd ?out), snd (snd ?out))" by simp
  note T = close_twice[OF out]
  have k: "fst (file_Close ?f ?w) = None" by (simp add: run_defs)
  have "fst ?out = map_option Wrap (fst (file_Close ?f ?w))" using T f by blast
  then have e: "fst ?out = None" using k by simp
  have "fst (snd ?out) = ?r\<lparr>file_r := None\<rparr>" using T by blast
  then have a: "file_r (fst (snd ?out)) = None" by simp
  have b: "files (snd (snd ?out)) = files ?w" using T by blast
  have "fd ?f \<notin> open_fds (snd (snd ?out))" using T f by blast
  then have c: "3 \<notin> open_fds (snd (snd ?out))" by simp
  have "Close (fst (snd ?out)) (snd (snd ?out)) = (None, fst (snd ?out), snd (snd ?out))"
    using T by blast
  then have d: "Close (fst (snd ?out)) (snd (snd ?out)) = (None, snd ?out)" by simp
  show ?thesis using e a b c d by (simp add: Let_def)
qed

theorem close_twice_counterexample:
  "file_r (ex_opened 10 2 9) = Some (Handle 3 ''log'') \<and>
   fst (Close (ex_opened 10 2 9) ex_next_call_fails) = Some (Wrap (ErrIO EIO))"
  by (simp add: run_defs)

text \<open>
  Claim C9. For a Rotator with \<open>maxSize > 0\<close>, fresh, on a disk where the file is
  missing or empty: after any sequence of writes that all succeed, each with a payload
  of at most \<open>maxSize\<close> bytes, the size is at most \<open>maxSize\<close>.
\<close>

theorem size_stays_under_threshold:
  assumes "0 < maxSize r" and "file_r r = None" and "size_r r = 0"
    and "files w (path r) = None \<or> files w (path r) = Some []"
    and "\<forall>b\<in>set bs. int (length b) \<le> maxSize r"
    and "writes bs r w = Some (r', w')"
  shows "size_r r' \<le> maxSize r'"
proof -
  have "size_r r \<le> maxSize r" using assms(1,3) by simp
  from writes_size[OF this assms(5,6)] show ?thesis by simp
qed

theorem size_stays_under_threshold_witness:
  "(let r = ex_rotator 5 2; w = ex_disk [] []; bs = [''aaa'', ''bbb'', ''cc'']
    in 0 < maxSize r \<and> file_r r = None \<and> size_r r = 0 \<and> files w (path r) = None \<and>
       (\<forall>b\<in>set bs. int (length b) \<le> maxSize r) \<and>
       (case writes bs r w of
          None \<Rightarrow> False
        | Some (r', w') \<Rightarrow> size_r r' = 5 \<and> size_r r' \<le> maxSize r' \<and>
            files w' ''log'' = Some ''bbbcc'' \<and> files w' ''log-1'' = Some ''aaa''))"
proof -
  let ?r = "ex_rotator 5 2" and ?w = "ex_disk [] []"
  let ?bs = "[''aaa'', ''bbb'', ''cc'']"
  have h: "0 < maxSize ?r" "file_r ?r = None" "size_r ?r = 0" by (simp_all add: ex_rotator_def)
  have d: "files ?w (path ?r) = None \<or> files ?w (path ?r) = Some []" by (simp add: ex_disk_def)
  have l: "\<forall>b\<in>set ?bs. int (length b) \<le> maxSize ?r" by (simp add: ex_rotator_def)
  have s: "writes ?bs ?r ?w \<noteq> None" by (simp add: run_defs)
  then obtain r' w' where e: "writes ?bs ?r ?w = Some (r', w')" by auto
  from size_stays_under_threshold[OF h d l e] have u: "size_r r' \<le> maxSize r'" .
  have v: "size_r (fst (the (writes ?bs ?r ?w))) = 5 \<and>
           files (snd (the (writes ?bs ?r ?w))) ''log'' = Some ''bbbcc'' \<and>
           files (snd (the (writes ?bs ?r ?w))) ''log-1'' = Some ''aaa''"
    by (simp add: run_defs)
  show ?thesis using h d l u v unfolding Let_def e by (simp add: ex_disk_def)
qed

text \<open>
  Claim C10. When the close of the file fails inside \<open>Close\<close>, the error is returned
  wrapped, the Rotator is left without a handle and the descriptor is closed; a second
  \<open>Close\<close> returns no error and does nothing, and a later write starts with
  \<open>os.Stat\<close> on the path.
\<close>

theorem close_failure_leaves_closed:
  assumes "file_r r = Some f" and "file_Close f w = (Some err, w1)"
  shows "Close r w = (Some (Wrap err), r\<lparr>file_r := None\<rparr>, w1) \<and>
         fd f \<notin> open_fds w1 \<and>
         Close (r\<lparr>file_r := None\<rparr>) w1 = (None, r\<lparr>file_r := None\<rparr>, w1) \<and>
         (\<forall>b. \<exists>cs. calls w1 (snd (snd (Write (r\<lparr>file_r := None\<rparr>) b w1))) = Stat (path r) # cs)"
proof (intro conjI allI)
  show "Close r w = (Some (Wrap err), r\<lparr>file_r := None\<rparr>, w1)"
    using assms by (simp add: Close_def)
  show "fd f \<notin> open_fds w1" using file_Close_effect[OF assms(2)] by simp
  show "Close (r\<lparr>file_r := None\<rparr>) w1 = (None, r\<lparr>file_r := None\<rparr>, w1)"
    by (simp add: Close_def)
  fix b
  show "\<exists>cs. calls w1 (snd (snd (Write (r\<lparr>file_r := None\<rparr>) b w1))) = Stat (path r) # cs"
    using Write_closed_starts_with_Stat[of "r\<lparr>file_r := None\<rparr>" w1 b] by simp
qed

theorem close_failure_leaves_closed_witness:
  "(let r = ex_opened 10 2 9; w = ex_disk [(''log'', ''123456789'')] [Fault EIO 0];
        out = Close r w; again = Close (fst (snd out)) (snd (snd out))
    in file_r r = Some (Handle 3 ''log'') \<and>
       fst (file_Close (Handle 3 ''log'') w) = Some (ErrIO EIO) \<and>
       fst out = Some (Wrap (ErrIO EIO)) \<and> file_r (fst (snd out)) = None \<and>
       3 \<notin> open_fds (snd (snd out)) \<and> again = (None, snd out))"
proof -
  let ?r = "ex_opened 10 2 9"
  let ?w = "ex_disk [(''log'', ''123456789'')] [Fault EIO 0]"
  let ?f = "Handle 3 ''log''"
  have f: "file_r ?r = Some ?f" by (simp add: ex_opened_def)
  have c1: "fst (file_Close ?f ?w) = Some (ErrIO EIO)" by (simp add: run_defs)
  from result_pair[OF this]
  have c: "file_Close ?f ?w = (Some (ErrIO EIO), snd (file_Close ?f ?w))" .
  from close_failure_leaves_closed[OF f c]
  have R: "Close ?r ?w = (Some (Wrap (ErrIO EIO)), ?r\<lparr>file_r := None\<rparr>, snd (file_Close ?f ?w))"
    and D: "fd ?f \<notin> open_fds (snd (file_Close ?f ?w))"
    and A: "Close (?r\<lparr>file_r := None\<rparr>) (snd (file_Close ?f ?w)) =
            (None, ?r\<lparr>file_r := None\<rparr>, snd (file_Close ?f ?w))"
    by blast+
  show ?thesis using f c1 D unfolding Let_def R by (simp add: A)
qed

end
